theory Spec2Isabelle
  imports Complex_Main "HOL-Library.Word"
begin

section \<open>Numbers of the program\<close>

subsection \<open>C doubles\<close>

text \<open>
  The Cython sources declare every time value as a C \<^verbatim>\<open>double\<close>. A finite binary64 value
  is modelled by the rational number it denotes; every arithmetic operation computes the
  exact rational result and rounds it to the nearest binary64 value, ties to even (53
  significant bits). Infinities, NaN, negative zero and the subnormal range are outside
  the model: the exponent is not bounded.
\<close>

type_synonym double = rat

function bitlen :: "int \<Rightarrow> int" where
  "bitlen n = (if n \<le> 0 then 0 else 1 + bitlen (n div 2))"
  by pat_completeness auto
termination
  by (relation "measure nat") auto

declare bitlen.simps [simp del]

definition pow2 :: "int \<Rightarrow> rat" where
  "pow2 e = (if 0 \<le> e then 2 ^ nat e else 1 / 2 ^ nat (- e))"

definition round_half_even :: "rat \<Rightarrow> int" where
  "round_half_even x =
     (let f = \<lfloor>x\<rfloor>; d = x - of_int f
      in if d < 1 / 2 then f
         else if 1 / 2 < d then f + 1
         else if even f then f else f + 1)"

text \<open>\<open>binexp x\<close> is the binary exponent of a non-zero \<open>x\<close>: \<open>2 ^ e \<le> \<bar>x\<bar> < 2 ^ (e + 1)\<close>.\<close>

definition binexp :: "rat \<Rightarrow> int" where
  "binexp x =
     (let (p, q) = quotient_of \<bar>x\<bar>;
          d = bitlen p - bitlen q
      in if pow2 d \<le> \<bar>x\<bar> then d else d - 1)"

definition fl :: "rat \<Rightarrow> double" where
  "fl x =
     (if x = 0 then 0
      else let e = binexp x - 52
           in of_int (round_half_even (x / pow2 e)) * pow2 e)"

definition fadd :: "double \<Rightarrow> double \<Rightarrow> double" where
  "fadd x y = fl (x + y)"

definition fsub :: "double \<Rightarrow> double \<Rightarrow> double" where
  "fsub x y = fl (x - y)"

definition fmul :: "double \<Rightarrow> double \<Rightarrow> double" where
  "fmul x y = fl (x * y)"

text \<open>Every division of the sources is guarded against a zero divisor before it runs.\<close>

definition fdiv :: "double \<Rightarrow> double \<Rightarrow> double" where
  "fdiv x y = fl (x / y)"

definition fabs :: "double \<Rightarrow> double" where
  "fabs x = \<bar>x\<bar>"

definition trunc_int :: "rat \<Rightarrow> int" where
  "trunc_int x = (if 0 \<le> x then \<lfloor>x\<rfloor> else \<lceil>x\<rceil>)"

text \<open>C's \<^verbatim>\<open>fmod\<close> is exact: the result is representable and is not rounded.\<close>

definition c_fmod :: "double \<Rightarrow> double \<Rightarrow> double" where
  "c_fmod x y = x - y * of_int (trunc_int (x / y))"

text \<open>
  Python's \<^verbatim>\<open>x % y\<close> on floats (\<^verbatim>\<open>float_rem\<close>): \<^verbatim>\<open>fmod\<close>, then one \<^verbatim>\<open>y\<close> is added when the
  remainder is not zero and its sign differs from the divisor's. The sources only divide
  by the non-zero constants 60 and 3600.
\<close>

definition py_mod :: "double \<Rightarrow> double \<Rightarrow> double" where
  "py_mod x y =
     (let m = c_fmod x y
      in if m \<noteq> 0 then (if (y < 0) \<noteq> (m < 0) then fadd m y else m) else 0)"

subsection \<open>C integers\<close>

text \<open>
  \<^verbatim>\<open>_value\<close>, \<^verbatim>\<open>progress\<close>, \<^verbatim>\<open>errors\<close> and \<^verbatim>\<open>_index\<close> are C \<^verbatim>\<open>int\<close> fields: 32 bits, two's
  complement. They are kept as \<open>int\<close>, and every C operation that can leave the range
  wraps its result with \<open>wrap32\<close>.
\<close>

definition wrap32 :: "int \<Rightarrow> int" where
  "wrap32 x = (x + 2 ^ 31) mod 2 ^ 32 - 2 ^ 31"

definition int32 :: "int \<Rightarrow> bool" where
  "int32 x = (- (2 ^ 31) \<le> x \<and> x < 2 ^ 31)"

text \<open>The value of a C \<^verbatim>\<open>int\<close> after its conversion to \<^verbatim>\<open>unsigned long\<close> (64 bits).\<close>

definition to_ulong :: "int \<Rightarrow> int" where
  "to_ulong x = x mod 2 ^ 64"

text \<open>
  The cast \<^verbatim>\<open><int>(d)\<close> of a double truncates towards zero. C leaves the result undefined
  when the truncated value is not an \<^verbatim>\<open>int\<close>; the model returns what the x86-64 conversion
  instruction returns there, the smallest \<^verbatim>\<open>int\<close>.
\<close>

definition int_of_double :: "double \<Rightarrow> int" where
  "int_of_double d = (let t = trunc_int d in if int32 t then t else - (2 ^ 31))"

subsection \<open>Fixed-point formatting\<close>

function digits :: "int \<Rightarrow> string" where
  "digits n =
     (if n < 10 then [''0123456789'' ! nat n]
      else digits (n div 10) @ [''0123456789'' ! nat (n mod 10)])"
  by pat_completeness auto
termination
  by (relation "measure nat") auto

declare digits.simps [simp del]

text \<open>
  \<open>fmt_f d x\<close> is Python's \<^verbatim>\<open>f"{x:.df}"\<close>: the exact value of the double, rounded to \<open>d\<close>
  decimals, ties to even.
\<close>

definition fmt_f :: "nat \<Rightarrow> double \<Rightarrow> string" where
  "fmt_f d x =
     (let n = round_half_even (\<bar>x\<bar> * 10 ^ d);
          frac = digits (n mod 10 ^ d)
      in (if x < 0 then ''-'' else '''') @ digits (n div 10 ^ d) @
         (if d = 0 then ''''
          else ''.'' @ replicate (d - length frac) (CHR ''0'') @ frac))"

section \<open>The duration string\<close>

text \<open>
  \<^verbatim>\<open>class TimeUnits(Enum)\<close>: the members in definition order, each with its name and value.
  \<^verbatim>\<open>1e-3\<close> is the double nearest to one thousandth.
\<close>

definition TimeUnits_ms :: double where
  "TimeUnits_ms = fl (1 / 1000)"

definition TimeUnits_seconds :: double where
  "TimeUnits_seconds = 1"

definition TimeUnits_minutes :: double where
  "TimeUnits_minutes = 60"

definition TimeUnits_hours :: double where
  "TimeUnits_hours = 60 ^ 2"

definition TimeUnits_days :: double where
  "TimeUnits_days = 24 * 60 ^ 2"

definition TimeUnits :: "(string \<times> double) list" where
  "TimeUnits =
     [(''ms'', TimeUnits_ms), (''seconds'', TimeUnits_seconds),
      (''minutes'', TimeUnits_minutes), (''hours'', TimeUnits_hours),
      (''days'', TimeUnits_days)]"

text \<open>
  The template \<^verbatim>\<open>"{minutes}{major_unit}{seconds} {minor_unit}"\<close>.
\<close>

definition template_format :: "string \<Rightarrow> string \<Rightarrow> string \<Rightarrow> string \<Rightarrow> string" where
  "template_format minutes major_unit seconds minor_unit =
     minutes @ major_unit @ seconds @ '' '' @ minor_unit"

text \<open>
  The loop \<^verbatim>\<open>for unit in TimeUnits\<close> of \<^verbatim>\<open>__str__\<close>, over the members still to visit, with the
  three locals it updates; the empty list is the code after the loop.
\<close>

fun str_loop :: "(string \<times> double) list \<Rightarrow> double \<Rightarrow> double \<Rightarrow> double \<Rightarrow> string" where
  "str_loop [] time_seconds minutes seconds =
     (let hours = fabs time_seconds
      in template_format (fmt_f 0 hours @ '' '') '''' (fmt_f 0 minutes) ''minutes'')"
| "str_loop ((name, val) # units) time_seconds minutes seconds =
     (if time_seconds < TimeUnits_seconds
      then template_format '''' '''' (fmt_f 0 (fdiv time_seconds TimeUnits_ms)) ''ms''
      else if name = ''ms'' then str_loop units time_seconds minutes seconds
      else
        let time_seconds = fdiv time_seconds val
        in if time_seconds < TimeUnits_minutes
           then template_format '''' '''' (fmt_f 2 seconds) name
           else if time_seconds < TimeUnits_hours
           then template_format '''' '''' (fmt_f 0 seconds) name
           else str_loop units time_seconds
                  (fabs (fdiv time_seconds TimeUnits_hours))
                  (fabs (py_mod time_seconds TimeUnits_hours)))"

text \<open>\<^verbatim>\<open>__str__\<close>, as a function of \<^verbatim>\<open>self.execution_time\<close>, the only field it reads.\<close>

definition str_of :: "double \<Rightarrow> string" where
  "str_of time_seconds =
     str_loop TimeUnits time_seconds
       (fabs (fdiv time_seconds TimeUnits_minutes))
       (fabs (py_mod time_seconds TimeUnits_minutes))"

section \<open>The clock and the terminal\<close>

text \<open>
  \<^verbatim>\<open>time.time()\<close> reads a clock the program does not control: the world holds the sequence
  of readings and the number of readings taken so far. Standard output is the list of
  what was written, one entry for each writing statement of the sources, with the values
  the statement formats:
  \<^item> \<open>Title\<close>: \<^verbatim>\<open>print(f'\033[1;4m{self.title.center(75)}\033[0m')\<close>;
  \<^item> \<open>EmptyBar\<close>: \<^verbatim>\<open>sys.stdout.write("[%s] %i%%" % (" " * 40, 0))\<close>;
  \<^item> \<open>ProgressLine throughput progress remaining_time execution_time\<close>: the write of
    \<^verbatim>\<open>"\r[%.1f iter/s] [%s] %i%% (ETA: %.1fs/%.1fs)"\<close> and its flush;
  \<^item> \<open>FinalLine throughput progress\<close>: the write of \<^verbatim>\<open>"\r[%.1f iter/s] [%s] 100%% %s"\<close>, its
    flush and \<^verbatim>\<open>print('\n')\<close>;
  \<^item> \<open>CompleteLine\<close>: the write of \<^verbatim>\<open>"\r[%s] 100%%\n" % ("=" * int(50))\<close> and its flush;
  \<^item> \<open>ProgressLine_int progress execution_time remaining_time speed\<close>: the write of
    \<^verbatim>\<open>"\r[%s] %i%% (ETA: %.2fs/%.2fs) %.2f MBits/s"\<close> and its flush;
  \<^item> \<open>UpdateLine\<close>: the write of \<^verbatim>\<open>"\r[%s] %i%%" % ("=" * (50), 100)\<close>, its flush and
    \<^verbatim>\<open>print("\n")\<close>;
  \<^item> \<open>Summary text\<close>: \<^verbatim>\<open>print(f"\n\033[34mExecution time: {self!s}\033[0m\n")\<close>.
\<close>

datatype exn =
    ZeroDivisionError | StopIteration | TypeError | OverflowError | IndexError
  | KeyboardInterrupt | SystemExit

datatype out =
    Title string
  | EmptyBar
  | ProgressLine double int double double
  | FinalLine double int
  | CompleteLine
  | ProgressLine_int int double double double
  | UpdateLine
  | Summary string

record world =
  clock :: "nat \<Rightarrow> double"
  ticks :: nat
  sys_stdout :: "out list"

definition time_time :: "world \<Rightarrow> double \<times> world" where
  "time_time w = (clock w (ticks w), w\<lparr>ticks := Suc (ticks w)\<rparr>)"

definition emit :: "out \<Rightarrow> world \<Rightarrow> world" where
  "emit e w = w\<lparr>sys_stdout := sys_stdout w @ [e]\<rparr>"

section \<open>The progress bar\<close>

text \<open>
  The repository holds two variants of \<^verbatim>\<open>cdef class ProgressBar\<close>. The fields of the
  integer-only variant are those of \<^verbatim>\<open>ProgressBar.pxd\<close>, where \<^verbatim>\<open>num_jobs\<close> is a C \<^verbatim>\<open>int\<close>. The
  iterable-aware variant declares the same fields with \<^verbatim>\<open>num_jobs\<close> an \<^verbatim>\<open>unsigned long\<close>,
  and adds \<^verbatim>\<open>_index\<close> and \<^verbatim>\<open>sequence\<close>. Operations of the iterable-aware variant carry the
  suffix \<open>_seq\<close>, those of the integer-only variant the suffix \<open>_int\<close>; an operation
  with the same body in both carries none. \<^verbatim>\<open>_value\<close> is the field \<open>value'\<close>, \<^verbatim>\<open>_index\<close>
  is \<open>index'\<close>; a \<^verbatim>\<open>sequence\<close> that was never assigned is \<open>None\<close>.
\<close>

record ProgressBar =
  start_time :: double
  end_time :: double
  execution_time :: double
  num_jobs :: int
  value' :: int
  progress :: int
  errors :: int
  last_print_time :: double
  print_on_exit :: bool
  print_interval :: double
  title :: string
  throughput :: double

record 'a ProgressBarSeq = ProgressBar +
  index' :: int
  sequence :: "'a list option"

subsection \<open>Construction\<close>

text \<open>
  The argument \<^verbatim>\<open>jobs\<close>: an \<^verbatim>\<open>int\<close>, an iterable that can be traversed again (a list, a
  tuple, a range), an iterator that is consumed by its first traversal, or anything else.
\<close>

datatype 'a jobs = JInt int | JSeq "'a list" | JIter "'a list" | JOther

text \<open>
  A title is the list of its code points, each below 256. \<^verbatim>\<open>str.strip()\<close> removes the
  characters Python counts as whitespace from both ends: below 256 these are the space,
  \<open>0x09\<close> to \<open>0x0D\<close>, \<open>0x1C\<close> to \<open>0x1F\<close>, \<open>0x85\<close> and \<open>0xA0\<close>.
\<close>

definition is_space :: "char \<Rightarrow> bool" where
  "is_space c = (c \<in> set [CHR '' '', CHR 0x09, CHR 0x0A, CHR 0x0B, CHR 0x0C, CHR 0x0D,
                           CHR 0x1C, CHR 0x1D, CHR 0x1E, CHR 0x1F, CHR 0x85, CHR 0xA0])"

definition strip :: "string \<Rightarrow> string" where
  "strip s = rev (dropWhile is_space (rev (dropWhile is_space s)))"

text \<open>
  \<^verbatim>\<open>__init__\<close> of the iterable-aware variant. \<^verbatim>\<open>len(list(jobs))\<close> traverses \<^verbatim>\<open>jobs\<close> once and
  \<^verbatim>\<open>list(jobs)\<close> a second time. Storing a Python \<^verbatim>\<open>int\<close> in the \<^verbatim>\<open>unsigned long\<close> field raises
  \<^verbatim>\<open>OverflowError\<close> outside \<open>0 .. 2 ^ 64 - 1\<close>. The comparison \<^verbatim>\<open>self.num_jobs == -1\<close> is
  between an \<^verbatim>\<open>unsigned long\<close> and \<open>-1\<close>, which C converts to \<^verbatim>\<open>unsigned long\<close> first.
\<close>

definition init_seq ::
  "'a jobs \<Rightarrow> string \<Rightarrow> bool \<Rightarrow> double \<Rightarrow> world \<Rightarrow> exn + ('a ProgressBarSeq \<times> world)" where
  "init_seq jobs title' print_on_exit' print_interval' w =
     (case (case jobs of
              JInt n \<Rightarrow> Inr (n, None)
            | JSeq xs \<Rightarrow> Inr (int (length xs), Some xs)
            | JIter xs \<Rightarrow> Inr (int (length xs), Some [])
            | JOther \<Rightarrow> Inl TypeError) of
        Inl e \<Rightarrow> Inl e
      | Inr (n, seq) \<Rightarrow>
          if n < 0 \<or> 2 ^ 64 \<le> n then Inl OverflowError
          else
            let (t0, w) = time_time w;
                (t1, w) = time_time w;
                s = \<lparr>start_time = t0, end_time = 0, execution_time = 0, num_jobs = n,
                     value' = 0, progress = 0, errors = 0, last_print_time = t1,
                     print_on_exit = print_on_exit', print_interval = print_interval',
                     title = strip title', throughput = 0, index' = 0, sequence = seq\<rparr>;
                w = (if title s \<noteq> [] then emit (Title (title s)) w else w);
                w = (if num_jobs s = to_ulong (- 1) then emit EmptyBar w else w)
            in Inr (s, w))"

text \<open>
  \<^verbatim>\<open>__init__\<close> of the integer-only variant. The parameter is an \<^verbatim>\<open>unsigned long\<close>, so the call
  raises \<^verbatim>\<open>OverflowError\<close> outside \<open>0 .. 2 ^ 64 - 1\<close>; the assignment to the \<^verbatim>\<open>int\<close> field
  keeps the low 32 bits. \<^verbatim>\<open>start_time\<close> and \<^verbatim>\<open>title\<close> are not assigned.
\<close>

definition init_int :: "int \<Rightarrow> bool \<Rightarrow> double \<Rightarrow> world \<Rightarrow> exn + (ProgressBar \<times> world)" where
  "init_int num_jobs' print_on_exit' print_interval' w =
     (if num_jobs' < 0 \<or> 2 ^ 64 \<le> num_jobs' then Inl OverflowError
      else
        let s = \<lparr>start_time = 0, end_time = 0, execution_time = 0,
                 num_jobs = wrap32 num_jobs', value' = 0, progress = 0, errors = 0,
                 last_print_time = 0, print_on_exit = print_on_exit',
                 print_interval = print_interval', title = [], throughput = 0\<rparr>
        in Inr (s, if num_jobs s = - 1 then emit EmptyBar w else w))"

subsection \<open>The value property\<close>

definition get_value :: "'z ProgressBar_scheme \<Rightarrow> int" where
  "get_value s = value' s"

text \<open>The setter's parameter is a C \<^verbatim>\<open>int\<close>: the call raises outside its range.\<close>

definition set_value :: "int \<Rightarrow> 'z ProgressBar_scheme \<Rightarrow> exn + 'z ProgressBar_scheme" where
  "set_value new_value s =
     (if int32 new_value then Inr (s\<lparr>value' := new_value\<rparr>) else Inl OverflowError)"

subsection \<open>Completion, entry and exit\<close>

text \<open>\<^verbatim>\<open>complete\<close> of the iterable-aware variant writes the full bar and changes no field.\<close>

definition complete_seq ::
  "'z ProgressBar_scheme \<times> world \<Rightarrow> 'z ProgressBar_scheme \<times> world" where
  "complete_seq sw = (case sw of (s, w) \<Rightarrow> (s, emit CompleteLine w))"

text \<open>\<^verbatim>\<open>update\<close> and \<^verbatim>\<open>complete\<close> of the integer-only variant.\<close>

definition update_int ::
  "'z ProgressBar_scheme \<times> world \<Rightarrow> 'z ProgressBar_scheme \<times> world" where
  "update_int sw = (case sw of (s, w) \<Rightarrow> (s\<lparr>progress := value' s\<rparr>, emit UpdateLine w))"

definition complete_int ::
  "'z ProgressBar_scheme \<times> world \<Rightarrow> 'z ProgressBar_scheme \<times> world" where
  "complete_int sw =
     (case sw of (s, w) \<Rightarrow>
        let s = s\<lparr>value' := num_jobs s\<rparr>;
            (s, w) = update_int (s, w)
        in (s, if print_on_exit s then emit (Summary (str_of (execution_time s))) w else w))"

text \<open>\<^verbatim>\<open>__enter__\<close> is the same in both variants.\<close>

definition enter ::
  "'z ProgressBar_scheme \<times> world \<Rightarrow> 'z ProgressBar_scheme \<times> world" where
  "enter sw = (case sw of (s, w) \<Rightarrow> let (t, w) = time_time w in (s\<lparr>start_time := t\<rparr>, w))"

text \<open>
  \<^verbatim>\<open>__exit__\<close>: \<open>exc_type\<close> is \<open>None\<close> when the body of the \<^verbatim>\<open>with\<close> statement finished, and
  the exception when it raised one. The first component of the result is the returned
  value, \<^verbatim>\<open>exc_type is not None\<close>.
\<close>

definition exit_seq ::
  "exn option \<Rightarrow> 'z ProgressBar_scheme \<times> world \<Rightarrow> bool \<times> 'z ProgressBar_scheme \<times> world" where
  "exit_seq exc_type sw =
     (case sw of (s, w) \<Rightarrow>
        let (t, w) = time_time w;
            s = s\<lparr>end_time := t\<rparr>;
            s = s\<lparr>execution_time := fsub (end_time s) (start_time s)\<rparr>;
            w = (if print_on_exit s then emit (Summary (str_of (execution_time s))) w else w)
        in (exc_type \<noteq> None, s, w))"

definition exit_int ::
  "exn option \<Rightarrow> 'z ProgressBar_scheme \<times> world \<Rightarrow> bool \<times> 'z ProgressBar_scheme \<times> world" where
  "exit_int exc_type sw =
     (case sw of (s, w) \<Rightarrow>
        let (t, w) = time_time w;
            s = s\<lparr>end_time := t\<rparr>;
            s = s\<lparr>execution_time := fsub (end_time s) (start_time s)\<rparr>;
            (s, w) = complete_int (s, w)
        in (exc_type \<noteq> None, s, w))"

text \<open>
  Python's \<^verbatim>\<open>with\<close> statement around a body that either finishes (\<open>None\<close>) or raises
  (\<open>Some e\<close>): the exit method always runs, and the exception of the body is raised again
  exactly when the exit method returned a false value.
\<close>

definition with_stmt ::
  "('s \<times> world \<Rightarrow> 's \<times> world) \<Rightarrow> (exn option \<Rightarrow> 's \<times> world \<Rightarrow> bool \<times> 's \<times> world) \<Rightarrow>
   ('s \<times> world \<Rightarrow> exn option \<times> 's \<times> world) \<Rightarrow> 's \<times> world \<Rightarrow> exn option \<times> 's \<times> world" where
  "with_stmt enter_m exit_m body sw =
     (let (r, sw) = body (enter_m sw);
          (suppress, sw) = exit_m r sw
      in (if suppress then None else r, sw))"

subsection \<open>Increment\<close>

text \<open>
  The body of the \<^verbatim>\<open>try\<close> statement of \<^verbatim>\<open>increment\<close>, iterable-aware variant. The result
  names the exception that left the body, if any, with the state at that point.
  \<^item> The parameter is an \<^verbatim>\<open>unsigned int\<close>; C adds it to the \<^verbatim>\<open>int\<close> field modulo \<open>2 ^ 32\<close>.
  \<^item> \<^verbatim>\<open>self._value / self.num_jobs\<close> is a true division of two C integers: both are
    converted to \<^verbatim>\<open>double\<close>, and a zero divisor raises \<^verbatim>\<open>ZeroDivisionError\<close>.
  \<^item> \<^verbatim>\<open>self.num_jobs - self._value\<close> and \<^verbatim>\<open>self._value == self.num_jobs\<close> mix \<^verbatim>\<open>unsigned long\<close>
    and \<^verbatim>\<open>int\<close>: C converts the \<^verbatim>\<open>int\<close> to \<^verbatim>\<open>unsigned long\<close> and computes modulo \<open>2 ^ 64\<close>.
\<close>

definition increment_try_seq ::
  "32 word \<Rightarrow> 'z ProgressBar_scheme \<times> world \<Rightarrow> exn option \<times> 'z ProgressBar_scheme \<times> world" where
  "increment_try_seq increment sw =
     (case sw of (s, w) \<Rightarrow>
        let s = s\<lparr>value' := wrap32 (value' s + uint increment)\<rparr>
        in if num_jobs s = 0 then (Some ZeroDivisionError, s, w)
           else
             let s = s\<lparr>progress :=
                       int_of_double
                         (fmul (fdiv (of_int (value' s)) (fl (of_int (num_jobs s)))) 100)\<rparr>;
                 (current_time, w) = time_time w;
                 (s, w) =
                   (if print_interval s < fsub current_time (last_print_time s)
                    then
                      let s = s\<lparr>last_print_time := current_time\<rparr>;
                          (now, w) = time_time w;
                          s = s\<lparr>execution_time := fsub now (start_time s)\<rparr>;
                          remaining_time =
                            (if 0 < value' s
                             then fmul (fdiv (execution_time s) (of_int (value' s)))
                                    (fl (of_int (to_ulong (num_jobs s - value' s))))
                             else 0);
                          s = s\<lparr>throughput :=
                                (if 0 < execution_time s
                                 then fdiv (of_int (value' s)) (execution_time s)
                                 else 0)\<rparr>
                      in (s, emit (ProgressLine (throughput s) (progress s) remaining_time
                                     (execution_time s)) w)
                    else (s, w))
             in if to_ulong (value' s) = num_jobs s
                then (None, s, emit (FinalLine (throughput s) (progress s)) w)
                else (None, s, w))"

text \<open>
  \<^verbatim>\<open>increment\<close>: the start time is read when it is still zero, the body runs, and
  \<^verbatim>\<open>except ZeroDivisionError\<close> counts the error. The first component of the result is the
  exception that leaves \<^verbatim>\<open>increment\<close>, if any.
\<close>

definition increment_seq ::
  "32 word \<Rightarrow> 'z ProgressBar_scheme \<times> world \<Rightarrow> exn option \<times> 'z ProgressBar_scheme \<times> world" where
  "increment_seq increment sw =
     (case sw of (s, w) \<Rightarrow>
        let (s, w) = (if start_time s = 0
                      then let (t, w) = time_time w in (s\<lparr>start_time := t\<rparr>, w)
                      else (s, w));
            (r, s, w) = increment_try_seq increment (s, w)
        in if r = Some ZeroDivisionError
           then (None, s\<lparr>errors := wrap32 (errors s + 1)\<rparr>, w)
           else (r, s, w))"

text \<open>
  The integer-only variant: the parameter is an \<^verbatim>\<open>unsigned short\<close>, \<^verbatim>\<open>num_jobs\<close> is an \<^verbatim>\<open>int\<close>,
  the speed is a local, and the final render is \<^verbatim>\<open>elif self.progress == self.num_jobs:
  self.complete()\<close>.
\<close>

definition increment_try_int ::
  "16 word \<Rightarrow> 'z ProgressBar_scheme \<times> world \<Rightarrow> exn option \<times> 'z ProgressBar_scheme \<times> world" where
  "increment_try_int increment sw =
     (case sw of (s, w) \<Rightarrow>
        let s = s\<lparr>value' := wrap32 (value' s + uint increment)\<rparr>
        in if num_jobs s = 0 then (Some ZeroDivisionError, s, w)
           else
             let s = s\<lparr>progress :=
                       int_of_double
                         (fmul (fdiv (of_int (value' s)) (of_int (num_jobs s))) 100)\<rparr>;
                 (current_time, w) = time_time w
             in if print_interval s < fsub current_time (last_print_time s)
                then
                  let s = s\<lparr>last_print_time := current_time\<rparr>;
                      (now, w) = time_time w;
                      s = s\<lparr>execution_time := fsub now (start_time s)\<rparr>;
                      remaining_time =
                        (if 0 < value' s
                         then fmul (fdiv (execution_time s) (of_int (value' s)))
                                (of_int (wrap32 (num_jobs s - value' s)))
                         else 0);
                      transfer_speed =
                        (if 0 < execution_time s
                         then fdiv (of_int (value' s)) (execution_time s)
                         else 0)
                  in (None, s, emit (ProgressLine_int (progress s) (execution_time s)
                                       remaining_time (fmul 8 transfer_speed)) w)
                else if progress s = num_jobs s
                then (let (s, w) = complete_int (s, w) in (None, s, w))
                else (None, s, w))"

definition increment_int ::
  "16 word \<Rightarrow> 'z ProgressBar_scheme \<times> world \<Rightarrow> exn option \<times> 'z ProgressBar_scheme \<times> world" where
  "increment_int increment sw =
     (case sw of (s, w) \<Rightarrow>
        let (s, w) = (if start_time s = 0
                      then let (t, w) = time_time w in (s\<lparr>start_time := t\<rparr>, w)
                      else (s, w));
            (r, s, w) = increment_try_int increment (s, w)
        in if r = Some ZeroDivisionError
           then (None, s\<lparr>errors := wrap32 (errors s + 1)\<rparr>, w)
           else (r, s, w))"

subsection \<open>Iteration\<close>

text \<open>
  \<^verbatim>\<open>__next__\<close>: \<^verbatim>\<open>len(self.sequence)\<close> raises \<^verbatim>\<open>TypeError\<close> when no sequence was stored; a negative
  index counts from the end of the list, as Python's indexing does. \<^verbatim>\<open>self.increment()\<close>
  passes the default amount 1.
\<close>

definition next_seq ::
  "'a ProgressBarSeq \<times> world \<Rightarrow> (exn + 'a) \<times> 'a ProgressBarSeq \<times> world" where
  "next_seq sw =
     (case sw of (s, w) \<Rightarrow>
        (case sequence s of
           None \<Rightarrow> (Inl TypeError, s, w)
         | Some xs \<Rightarrow>
             if index' s < int (length xs)
             then
               let i = (if index' s < 0 then index' s + int (length xs) else index' s)
               in if i < 0 then (Inl IndexError, s, w)
                  else
                    let item = xs ! nat i;
                        s = s\<lparr>index' := wrap32 (index' s + 1)\<rparr>;
                        (r, s, w) = increment_seq 1 (s, w)
                    in (case r of Some e \<Rightarrow> (Inl e, s, w) | None \<Rightarrow> (Inr item, s, w))
             else (Inl StopIteration, s, w)))"

text \<open>
  A \<^verbatim>\<open>for\<close> loop over the bar with an empty body: it pulls until \<^verbatim>\<open>StopIteration\<close> and
  collects the items. The fuel bounds the number of pulls; \<open>None\<close> is returned when it
  runs out or when a pull raises another exception.
\<close>

fun drain ::
  "nat \<Rightarrow> 'a ProgressBarSeq \<times> world \<Rightarrow> ('a list \<times> 'a ProgressBarSeq \<times> world) option" where
  "drain 0 sw = None"
| "drain (Suc fuel) sw =
     (case next_seq sw of
        (Inr item, s, w) \<Rightarrow>
          (case drain fuel (s, w) of
             None \<Rightarrow> None
           | Some (items, sw') \<Rightarrow> Some (item # items, sw'))
      | (Inl e, s, w) \<Rightarrow> if e = StopIteration then Some ([], s, w) else None)"

subsection \<open>Reading a result\<close>

definition raised :: "'r \<times> 's \<times> world \<Rightarrow> 'r" where
  "raised r = fst r"

definition bar_of :: "'r \<times> 's \<times> world \<Rightarrow> 's" where
  "bar_of r = fst (snd r)"

definition world_of :: "'r \<times> 's \<times> world \<Rightarrow> world" where
  "world_of r = snd (snd r)"

subsection \<open>Counting repaints\<close>

text \<open>A repaint is a progress line of either variant; the full-bar lines are not counted.\<close>

fun is_repaint :: "out \<Rightarrow> bool" where
  "is_repaint (ProgressLine th p eta el) = True"
| "is_repaint (ProgressLine_int p el eta sp) = True"
| "is_repaint e = False"

definition repaints :: "out list \<Rightarrow> nat" where
  "repaints es = length (filter is_repaint es)"

section \<open>Sample inputs\<close>

text \<open>A clock whose readings are one 64th of a second apart, and a silent terminal.\<close>

definition sample_clock :: "nat \<Rightarrow> double" where
  "sample_clock n = 1000 + of_nat n / 64"

definition sample_world :: world where
  "sample_world = \<lparr>clock = sample_clock, ticks = 0, sys_stdout = []\<rparr>"

text \<open>A bar of ten jobs, nine of them done, last painted at the time the clock starts.\<close>

definition sample_bar :: ProgressBar where
  "sample_bar =
     \<lparr>start_time = 1000, end_time = 0, execution_time = 0, num_jobs = 10, value' = 9,
      progress = 90, errors = 0, last_print_time = 1000, print_on_exit = True,
      print_interval = fl (1 / 10), title = [], throughput = 0\<rparr>"

text \<open>A body of a \<^verbatim>\<open>with\<close> statement that raises at once.\<close>

definition interrupted_body :: "ProgressBar \<times> world \<Rightarrow> exn option \<times> ProgressBar \<times> world" where
  "interrupted_body sw = (Some KeyboardInterrupt, sw)"

text \<open>The same bar with no job at all, and with the total \<open>-1\<close> that \<^verbatim>\<open>__init__\<close> tests for.\<close>

definition zero_bar :: ProgressBar where
  "zero_bar = sample_bar\<lparr>num_jobs := 0, value' := 0, progress := 0\<rparr>"

definition sentinel_bar :: ProgressBar where
  "sentinel_bar = sample_bar\<lparr>num_jobs := - 1, value' := 0, progress := 0\<rparr>"

text \<open>A bar of a hundred jobs with 28 done, and a bar whose single job is already done.\<close>

definition bar28 :: ProgressBar where
  "bar28 = sample_bar\<lparr>num_jobs := 100, value' := 28, progress := 28\<rparr>"

definition overshoot_bar :: ProgressBar where
  "overshoot_bar =
     sample_bar\<lparr>num_jobs := 1, value' := 1, progress := 100, last_print_time := 999\<rparr>"

section \<open>Properties of the numbers\<close>

subsection \<open>Powers of two and binary exponents\<close>

lemma pow2_powi: "pow2 e = 2 powi e"
  by (simp add: pow2_def power_int_def power_one_over inverse_eq_divide)

lemma pow2_pos: "0 < pow2 e"
  by (simp add: pow2_powi)

lemma pow2_add: "pow2 (a + b) = pow2 a * pow2 b"
  by (simp add: pow2_powi power_int_add)

lemma pow2_mono: "a \<le> b \<Longrightarrow> pow2 a \<le> pow2 b"
  by (simp add: pow2_powi power_int_increasing)

lemma pow2_strict_mono: "a < b \<Longrightarrow> pow2 a < pow2 b"
  by (simp add: pow2_powi power_int_strict_increasing)

lemma pow2_nonneg_exp: "0 \<le> e \<Longrightarrow> pow2 e = of_int (2 ^ nat e)"
  by (simp add: pow2_def)

lemma bitlen_bounds:
  "0 < n \<Longrightarrow> 0 < bitlen n \<and> 2 ^ nat (bitlen n - 1) \<le> n \<and> n < 2 ^ nat (bitlen n)"
proof (induction n rule: bitlen.induct)
  case (1 n)
  show ?case
  proof (cases "n = 1")
    case True
    then show ?thesis by (simp add: bitlen.simps)
  next
    case False
    with "1.prems" have pos: "0 < n div 2" by auto
    from "1.prems" have nz: "\<not> n \<le> 0" by simp
    note IH = "1.IH" [OF nz pos]
    define b where "b = bitlen (n div 2)"
    have bl: "bitlen n = 1 + b"
      using nz by (simp add: bitlen.simps [of n] b_def)
    from IH have b: "0 < b" "2 ^ nat (b - 1) \<le> n div 2" "n div 2 < 2 ^ nat b"
      by (simp_all add: b_def)
    have e1: "(2::int) ^ nat b = 2 * 2 ^ nat (b - 1)"
    proof -
      have "nat b = Suc (nat (b - 1))" using b(1) by simp
      then show ?thesis by (simp only: power_Suc)
    qed
    have e2: "(2::int) ^ nat (1 + b) = 2 * 2 ^ nat b"
      using b(1) by (simp add: nat_add_distrib)
    have "2 ^ nat b \<le> n" using b(2) e1 by linarith
    moreover have "n < 2 ^ nat (1 + b)" using b(3) e2 by linarith
    ultimately show ?thesis using b(1) bl by simp
  qed
qed

lemma bitlen_rat:
  assumes "0 < n"
  shows "pow2 (bitlen n - 1) \<le> of_int n" and "of_int n < pow2 (bitlen n)"
proof -
  from bitlen_bounds [OF assms]
  have b: "0 < bitlen n" "2 ^ nat (bitlen n - 1) \<le> n" "n < 2 ^ nat (bitlen n)" by simp_all
  have "pow2 (bitlen n - 1) = of_int (2 ^ nat (bitlen n - 1))"
    using b(1) by (intro pow2_nonneg_exp) simp
  also have "\<dots> \<le> of_int n" using b(2) by (simp only: of_int_le_iff)
  finally show "pow2 (bitlen n - 1) \<le> of_int n" .
  have "pow2 (bitlen n) = of_int (2 ^ nat (bitlen n))"
    using b(1) by (intro pow2_nonneg_exp) simp
  moreover have "(of_int n :: rat) < of_int (2 ^ nat (bitlen n))"
    using b(3) by (simp only: of_int_less_iff)
  ultimately show "of_int n < pow2 (bitlen n)" by simp
qed

lemma binexp_bounds:
  assumes "x \<noteq> 0"
  shows "pow2 (binexp x) \<le> \<bar>x\<bar>" and "\<bar>x\<bar> < pow2 (binexp x + 1)"
proof -
  obtain p q where pq: "quotient_of \<bar>x\<bar> = (p, q)" by (cases "quotient_of \<bar>x\<bar>")
  have q: "0 < q" using pq by (rule quotient_of_denom_pos)
  have x: "\<bar>x\<bar> = of_int p / of_int q" using pq by (rule quotient_of_div)
  have ax: "0 < \<bar>x\<bar>" using assms by simp
  have p: "0 < p"
    using ax q unfolding x by (simp add: zero_less_divide_iff)
  define d where "d = bitlen p - bitlen q"
  have xq: "\<bar>x\<bar> * of_int q = of_int p" using q x by simp
  have up: "\<bar>x\<bar> < pow2 (d + 1)"
  proof -
    have "pow2 (d + 1) * pow2 (bitlen q - 1) = pow2 (bitlen p)"
      by (simp add: pow2_add [symmetric] d_def)
    moreover have "pow2 (d + 1) * pow2 (bitlen q - 1) \<le> pow2 (d + 1) * of_int q"
      using bitlen_rat(1) [OF q] pow2_pos [of "d + 1"] by (simp add: mult_left_mono)
    ultimately have "of_int p < pow2 (d + 1) * of_int q"
      using bitlen_rat(2) [OF p] by linarith
    then show ?thesis using q unfolding x by (simp add: divide_less_eq)
  qed
  have lo: "pow2 (d - 1) \<le> \<bar>x\<bar>"
  proof -
    have "pow2 (d - 1) * pow2 (bitlen q) = pow2 (bitlen p - 1)"
      by (simp add: pow2_add [symmetric] d_def)
    moreover have "pow2 (d - 1) * of_int q \<le> pow2 (d - 1) * pow2 (bitlen q)"
      using bitlen_rat(2) [OF q] pow2_pos [of "d - 1"] by (simp add: mult_left_mono)
    ultimately have "pow2 (d - 1) * of_int q \<le> of_int p"
      using bitlen_rat(1) [OF p] by linarith
    then show ?thesis using q unfolding x by (simp add: le_divide_eq)
  qed
  have be: "binexp x = (if pow2 d \<le> \<bar>x\<bar> then d else d - 1)"
    by (simp add: binexp_def pq d_def Let_def)
  show "pow2 (binexp x) \<le> \<bar>x\<bar>" using lo by (simp add: be)
  show "\<bar>x\<bar> < pow2 (binexp x + 1)" using up by (auto simp add: be)
qed


subsection \<open>Rounding to the nearest integer\<close>

lemma round_half_even_of_int: "round_half_even (of_int n) = n"
  by (simp add: round_half_even_def)

lemma round_half_even_bounds:
  "of_int (round_half_even x) \<le> x + 1 / 2" "x - 1 / 2 \<le> of_int (round_half_even x)"
proof -
  define f where "f = \<lfloor>x\<rfloor>"
  have f: "of_int f \<le> x" "x < of_int f + 1" unfolding f_def by linarith+
  show "of_int (round_half_even x) \<le> x + 1 / 2"
    unfolding round_half_even_def Let_def f_def [symmetric] using f by auto
  show "x - 1 / 2 \<le> of_int (round_half_even x)"
    unfolding round_half_even_def Let_def f_def [symmetric] using f by auto
qed

lemma round_half_even_floor: "\<lfloor>x\<rfloor> \<le> round_half_even x" "round_half_even x \<le> \<lfloor>x\<rfloor> + 1"
  by (auto simp add: round_half_even_def Let_def)

lemma round_half_even_mono:
  assumes "x \<le> y"
  shows "round_half_even x \<le> round_half_even y"
proof (cases "\<lfloor>x\<rfloor> = \<lfloor>y\<rfloor>")
  case True
  with assms have "x - of_int \<lfloor>x\<rfloor> \<le> y - of_int \<lfloor>y\<rfloor>" by simp
  with True show ?thesis by (auto simp add: round_half_even_def Let_def)
next
  case False
  with assms have "\<lfloor>x\<rfloor> + 1 \<le> \<lfloor>y\<rfloor>" using floor_mono [OF assms] by linarith
  then show ?thesis
    using round_half_even_floor(2) [of x] round_half_even_floor(1) [of y] by linarith
qed

lemma round_half_even_minus: "round_half_even (- x) = - round_half_even x"
proof (cases "x = of_int \<lfloor>x\<rfloor>")
  case True
  then obtain n where "x = of_int n" ..
  then show ?thesis
    by (simp add: round_half_even_of_int del: of_int_minus add: of_int_minus [symmetric])
next
  case False
  then have c: "\<lceil>x\<rceil> = \<lfloor>x\<rfloor> + 1"
    by (metis ceiling_altdef)
  have fm: "\<lfloor>- x\<rfloor> = - \<lfloor>x\<rfloor> - 1"
    using c by (simp add: ceiling_def)
  have f: "of_int \<lfloor>x\<rfloor> < x" "x < of_int \<lfloor>x\<rfloor> + 1" using False by linarith+
  show ?thesis
    unfolding round_half_even_def Let_def fm using f by auto
qed


subsection \<open>Rounding to binary64 is monotone\<close>

lemma pow2_52: "pow2 52 = 2 ^ 52"
  by (simp add: pow2_def)

lemma pow2_53: "pow2 53 = 2 ^ 53"
  by (simp add: pow2_def)

lemma pow2_split_52: "pow2 a = pow2 (a - 52) * pow2 52"
proof -
  have "a = (a - 52) + 52" by simp
  then show ?thesis by (metis pow2_add)
qed

lemma pow2_split_53: "pow2 (a + 1) = pow2 (a - 52) * pow2 53"
proof -
  have "a + 1 = (a - 52) + 53" by simp
  then show ?thesis by (metis pow2_add)
qed

lemma mantissa_bounds:
  assumes "0 < x"
  shows "2 ^ 52 \<le> x / pow2 (binexp x - 52)" and "x / pow2 (binexp x - 52) < 2 ^ 53"
proof -
  have nz: "x \<noteq> 0" using assms by simp
  have a: "\<bar>x\<bar> = x" using assms by simp
  have "pow2 (binexp x) = pow2 (binexp x - 52) * pow2 52"
    by (rule pow2_split_52)
  then have "pow2 (binexp x - 52) * 2 ^ 52 \<le> x"
    using binexp_bounds(1) [OF nz] by (simp add: a pow2_52)
  then show "2 ^ 52 \<le> x / pow2 (binexp x - 52)"
    using pow2_pos [of "binexp x - 52"] by (simp add: le_divide_eq mult.commute)
  have "pow2 (binexp x + 1) = pow2 (binexp x - 52) * pow2 53"
    by (rule pow2_split_53)
  then have "x < pow2 (binexp x - 52) * 2 ^ 53"
    using binexp_bounds(2) [OF nz] by (simp add: a pow2_53)
  then show "x / pow2 (binexp x - 52) < 2 ^ 53"
    using pow2_pos [of "binexp x - 52"] by (simp add: divide_less_eq mult.commute)
qed

lemma round_mantissa_bounds:
  assumes "0 < x"
  shows "2 ^ 52 \<le> round_half_even (x / pow2 (binexp x - 52))"
    and "round_half_even (x / pow2 (binexp x - 52)) \<le> 2 ^ 53"
proof -
  have "round_half_even (of_int (2 ^ 52)) \<le> round_half_even (x / pow2 (binexp x - 52))"
    using mantissa_bounds(1) [OF assms] by (intro round_half_even_mono) simp
  then show "2 ^ 52 \<le> round_half_even (x / pow2 (binexp x - 52))"
    by (simp only: round_half_even_of_int)
  have "round_half_even (x / pow2 (binexp x - 52)) \<le> round_half_even (of_int (2 ^ 53))"
    using mantissa_bounds(2) [OF assms] by (intro round_half_even_mono) simp
  then show "round_half_even (x / pow2 (binexp x - 52)) \<le> 2 ^ 53"
    by (simp only: round_half_even_of_int)
qed

lemma fl_unfold:
  "x \<noteq> 0 \<Longrightarrow> fl x = of_int (round_half_even (x / pow2 (binexp x - 52))) * pow2 (binexp x - 52)"
  by (simp add: fl_def Let_def)

lemma fl_binade:
  assumes "0 < x"
  shows "pow2 (binexp x) \<le> fl x" and "fl x \<le> pow2 (binexp x + 1)"
proof -
  have nz: "x \<noteq> 0" using assms by simp
  let ?e = "binexp x - 52"
  let ?m = "round_half_even (x / pow2 ?e)"
  have m1: "(2 ^ 52 :: rat) \<le> of_int ?m"
    using round_mantissa_bounds(1) [OF assms] by (metis of_int_le_iff of_int_numeral of_int_power)
  have m2: "(of_int ?m :: rat) \<le> 2 ^ 53"
    using round_mantissa_bounds(2) [OF assms] by (metis of_int_le_iff of_int_numeral of_int_power)
  have "pow2 (binexp x) = 2 ^ 52 * pow2 ?e"
    using pow2_split_52 [of "binexp x"] by (simp only: pow2_52 mult.commute)
  also have "\<dots> \<le> of_int ?m * pow2 ?e"
    using m1 pow2_pos [of ?e] by (simp add: mult_right_mono)
  finally show "pow2 (binexp x) \<le> fl x" by (simp only: fl_unfold [OF nz])
  have "of_int ?m * pow2 ?e \<le> 2 ^ 53 * pow2 ?e"
    using m2 pow2_pos [of ?e] by (simp add: mult_right_mono)
  also have "\<dots> = pow2 (binexp x + 1)"
    using pow2_split_53 [of "binexp x"] by (simp only: pow2_53 mult.commute)
  finally show "fl x \<le> pow2 (binexp x + 1)" by (simp only: fl_unfold [OF nz])
qed

lemma binexp_mono:
  assumes "0 < x" "x \<le> y"
  shows "binexp x \<le> binexp y"
proof (rule ccontr)
  assume "\<not> binexp x \<le> binexp y"
  then have "binexp y + 1 \<le> binexp x" by simp
  then have "pow2 (binexp y + 1) \<le> pow2 (binexp x)" by (rule pow2_mono)
  moreover have "pow2 (binexp x) \<le> x" using binexp_bounds(1) [of x] assms by simp
  moreover have "y < pow2 (binexp y + 1)" using binexp_bounds(2) [of y] assms by simp
  ultimately show False using assms(2) by linarith
qed

lemma fl_mono_pos:
  assumes "0 < x" "x \<le> y"
  shows "fl x \<le> fl y"
proof (cases "binexp x = binexp y")
  case True
  have nz: "x \<noteq> 0" "y \<noteq> 0" using assms by simp_all
  let ?e = "binexp y - 52"
  have "x / pow2 ?e \<le> y / pow2 ?e"
    using assms(2) pow2_pos [of ?e] by (simp add: divide_right_mono)
  then have "round_half_even (x / pow2 ?e) \<le> round_half_even (y / pow2 ?e)"
    by (rule round_half_even_mono)
  then have "(of_int (round_half_even (x / pow2 ?e)) :: rat) \<le> of_int (round_half_even (y / pow2 ?e))"
    by (simp only: of_int_le_iff)
  then have "of_int (round_half_even (x / pow2 ?e)) * pow2 ?e
      \<le> of_int (round_half_even (y / pow2 ?e)) * pow2 ?e"
    using pow2_pos [of ?e] by (simp add: mult_right_mono)
  then show ?thesis by (simp only: fl_unfold [OF nz(1)] fl_unfold [OF nz(2)] True)
next
  case False
  with binexp_mono [OF assms] have "binexp x + 1 \<le> binexp y" by simp
  then have "pow2 (binexp x + 1) \<le> pow2 (binexp y)" by (rule pow2_mono)
  moreover have "fl x \<le> pow2 (binexp x + 1)" using assms(1) by (rule fl_binade(2))
  moreover have "pow2 (binexp y) \<le> fl y" using assms by (intro fl_binade(1)) simp
  ultimately show ?thesis by linarith
qed

lemma binexp_minus: "binexp (- x) = binexp x"
  by (simp add: binexp_def)

lemma fl_minus: "fl (- x) = - fl x"
  by (simp add: fl_def Let_def binexp_minus round_half_even_minus)

lemma fl_zero: "fl 0 = 0"
  by (simp add: fl_def)

lemma fl_pos: "0 < x \<Longrightarrow> 0 < fl x"
  using fl_binade(1) [of x] pow2_pos [of "binexp x"] by simp

lemma fl_nonneg: "0 \<le> x \<Longrightarrow> 0 \<le> fl x"
  using fl_pos [of x] by (cases "x = 0") (simp_all add: fl_zero less_imp_le)

lemma fl_mono:
  assumes "x \<le> y"
  shows "fl x \<le> fl y"
proof -
  consider "0 < x" | "x \<le> 0" "0 \<le> y" | "y < 0" by linarith
  then show ?thesis
  proof cases
    case 1
    then show ?thesis using assms by (rule fl_mono_pos)
  next
    case 2
    have "fl x = - fl (- x)" by (simp add: fl_minus)
    moreover have "0 \<le> fl (- x)" using 2(1) by (intro fl_nonneg) simp
    moreover have "0 \<le> fl y" using 2(2) by (rule fl_nonneg)
    ultimately show ?thesis by linarith
  next
    case 3
    then have "fl (- y) \<le> fl (- x)" using assms by (intro fl_mono_pos) simp_all
    then show ?thesis by (simp add: fl_minus)
  qed
qed

subsection \<open>Values that need no rounding, and the remainder\<close>

lemma binexp_less:
  assumes "x \<noteq> 0" "\<bar>x\<bar> < pow2 k"
  shows "binexp x < k"
proof (rule ccontr)
  assume "\<not> binexp x < k"
  then have "pow2 k \<le> pow2 (binexp x)" by (intro pow2_mono) simp
  with binexp_bounds(1) [OF assms(1)] assms(2) show False by linarith
qed

lemma fl_of_int:
  assumes "\<bar>n\<bar> < 2 ^ 53"
  shows "fl (of_int n) = of_int n"
proof (cases "n = 0")
  case True
  then show ?thesis by (simp add: fl_zero)
next
  case False
  let ?x = "of_int n :: rat"
  have nz: "?x \<noteq> 0" using False by simp
  have "\<bar>?x\<bar> = of_int \<bar>n\<bar>" by simp
  also have "\<dots> < of_int (2 ^ 53)" using assms by (simp only: of_int_less_iff)
  also have "\<dots> = pow2 53" by (simp add: pow2_def)
  finally have "binexp ?x < 53" by (rule binexp_less [OF nz])
  then have e: "binexp ?x - 52 \<le> 0" by simp
  define k where "k = nat (- (binexp ?x - 52))"
  have p: "pow2 (binexp ?x - 52) = 1 / 2 ^ k"
    using e by (cases "binexp ?x - 52 = 0") (simp_all add: pow2_def k_def)
  have "?x / pow2 (binexp ?x - 52) = of_int (n * 2 ^ k)" by (simp add: p)
  then have "round_half_even (?x / pow2 (binexp ?x - 52)) = n * 2 ^ k"
    by (simp only: round_half_even_of_int)
  then show ?thesis by (simp add: fl_unfold [OF nz] p)
qed

lemma py_mod_nonneg:
  assumes "0 \<le> x" "0 < y"
  shows "py_mod x y = x - y * of_int \<lfloor>x / y\<rfloor>" and "0 \<le> x - y * of_int \<lfloor>x / y\<rfloor>"
proof -
  have q: "0 \<le> x / y" using assms by simp
  have "of_int \<lfloor>x / y\<rfloor> \<le> x / y" by simp
  then have "y * of_int \<lfloor>x / y\<rfloor> \<le> x" using assms(2) by (simp add: le_divide_eq mult.commute)
  then show nn: "0 \<le> x - y * of_int \<lfloor>x / y\<rfloor>" by simp
  have c: "c_fmod x y = x - y * of_int \<lfloor>x / y\<rfloor>"
    using q by (simp add: c_fmod_def trunc_int_def)
  show "py_mod x y = x - y * of_int \<lfloor>x / y\<rfloor>"
    using nn assms(2) by (simp add: py_mod_def c Let_def)
qed

lemma fl_60: "fl 60 = 60"
  by code_simp

lemma fl_1: "fl 1 = 1"
  by code_simp

lemma fl_100: "fl 100 = 100"
  by code_simp

subsection \<open>The minute count of a duration below sixty hours\<close>

lemma binexp_eq:
  assumes "pow2 k \<le> \<bar>x\<bar>" "\<bar>x\<bar> < pow2 (k + 1)"
  shows "binexp x = k"
proof -
  have nz: "x \<noteq> 0" using assms(1) pow2_pos [of k] by auto
  have "binexp x < k + 1" using nz assms(2) by (rule binexp_less)
  moreover have "k \<le> binexp x"
  proof (rule ccontr)
    assume "\<not> k \<le> binexp x"
    then have "pow2 (binexp x + 1) \<le> pow2 k" by (intro pow2_mono) simp
    with binexp_bounds(2) [OF nz] assms(1) show False by linarith
  qed
  ultimately show ?thesis by simp
qed

lemma minutes_below_3600:
  assumes "fl t = t" "3600 \<le> t" "t < 216000"
  shows "fdiv t 60 < 3600"
proof (cases "t < 131072")
  case True
  then have "t / 60 \<le> 2185" by simp
  then have "fl (t / 60) \<le> fl 2185" by (rule fl_mono)
  moreover have "fl 2185 = 2185" by code_simp
  ultimately show ?thesis by (simp add: fdiv_def)
next
  case False
  have nz: "t \<noteq> 0" using assms(2) by simp
  have "pow2 17 \<le> \<bar>t\<bar>" "\<bar>t\<bar> < pow2 (17 + 1)"
    using False assms(3) by (simp_all add: pow2_def)
  then have b: "binexp t = 17" by (rule binexp_eq)
  define M where "M = round_half_even (t / pow2 (- 35))"
  have p: "pow2 (- 35) = 1 / 2 ^ 35" by (simp add: pow2_def)
  have "t = of_int M * pow2 (- 35)"
    using assms(1) fl_unfold [OF nz] by (simp add: b M_def)
  then have t: "t = of_int M / 2 ^ 35" by (simp add: p)
  have "(of_int M :: rat) < 216000 * 2 ^ 35" using assms(3) by (simp add: t)
  then have "(of_int M :: rat) < of_int (216000 * 2 ^ 35)" by simp
  then have "M < 216000 * 2 ^ 35" by (simp only: of_int_less_iff)
  then have "M \<le> 216000 * 2 ^ 35 - 1" by simp
  then have "(of_int M :: rat) \<le> of_int (216000 * 2 ^ 35 - 1)" by (simp only: of_int_le_iff)
  then have "t \<le> 216000 - 1 / 2 ^ 35" by (simp add: t field_simps)
  then have "t / 60 \<le> 3600 - 1 / 2 ^ 41" by simp
  then have "fl (t / 60) \<le> fl (3600 - 1 / 2 ^ 41)" by (rule fl_mono)
  moreover have "fl (3600 - 1 / 2 ^ 41) = 3600 - 1 / 2 ^ 41" by code_simp
  ultimately show ?thesis by (simp add: fdiv_def)
qed

subsection \<open>C integers\<close>

lemma wrap32_id: "int32 x \<Longrightarrow> wrap32 x = x"
  by (simp add: wrap32_def int32_def)

lemma int32_wrap32: "int32 (wrap32 x)"
  by (simp add: wrap32_def int32_def)

section \<open>Properties of increment\<close>

lemma increment_seq_zero_total:
  "num_jobs s = 0 \<Longrightarrow>
   increment_seq a (s, w) =
     (if start_time s = 0
      then (None, s\<lparr>start_time := clock w (ticks w), value' := wrap32 (value' s + uint a),
                     errors := wrap32 (errors s + 1)\<rparr>, w\<lparr>ticks := Suc (ticks w)\<rparr>)
      else (None, s\<lparr>value' := wrap32 (value' s + uint a), errors := wrap32 (errors s + 1)\<rparr>, w))"
  by (simp add: increment_seq_def increment_try_seq_def time_time_def Let_def)

lemma increment_int_zero_total:
  "num_jobs s = 0 \<Longrightarrow>
   increment_int a (s, w) =
     (if start_time s = 0
      then (None, s\<lparr>start_time := clock w (ticks w), value' := wrap32 (value' s + uint a),
                     errors := wrap32 (errors s + 1)\<rparr>, w\<lparr>ticks := Suc (ticks w)\<rparr>)
      else (None, s\<lparr>value' := wrap32 (value' s + uint a), errors := wrap32 (errors s + 1)\<rparr>, w))"
  by (simp add: increment_int_def increment_try_int_def time_time_def Let_def)

text \<open>The only exception the body can raise is the one the handler catches.\<close>

lemma raised_increment_seq: "raised (increment_seq a sw) = None"
  by (cases sw)
    (simp add: increment_seq_def increment_try_seq_def raised_def time_time_def Let_def
       split: prod.splits)

lemma raised_increment_int: "raised (increment_int a sw) = None"
  by (cases sw)
    (simp add: increment_int_def increment_try_int_def raised_def time_time_def Let_def
       split: prod.splits)

lemma value_increment_seq:
  "value' (bar_of (increment_seq a (s, w))) = wrap32 (value' s + uint a)"
  by (simp add: increment_seq_def increment_try_seq_def bar_of_def time_time_def Let_def
        split: prod.splits)

lemma value_increment_int:
  "value' (bar_of (increment_int a (s, w))) = wrap32 (value' s + uint a) \<or>
   value' (bar_of (increment_int a (s, w))) = num_jobs s"
  by (simp add: increment_int_def increment_try_int_def complete_int_def update_int_def
        bar_of_def time_time_def Let_def split: prod.splits)

text \<open>
  The integer-only constructor reaches the total \<open>-1\<close>: \<open>2 ^ 32 - 1\<close> is an \<^verbatim>\<open>unsigned long\<close>,
  and its low 32 bits are the \<^verbatim>\<open>int\<close> \<open>-1\<close>.
\<close>

lemma sentinel_bar_constructed:
  "init_int 4294967295 True (fl (1 / 10)) sample_world
     = Inr (sentinel_bar\<lparr>start_time := 0, last_print_time := 0\<rparr>, emit EmptyBar sample_world)"
  by (simp add: init_int_def sentinel_bar_def sample_bar_def wrap32_def Let_def)

lemma num_jobs_increment_seq: "num_jobs (bar_of (increment_seq a (s, w))) = num_jobs s"
  by (simp add: increment_seq_def increment_try_seq_def bar_of_def time_time_def Let_def
        split: prod.splits)

lemma progress_increment_seq:
  "num_jobs s \<noteq> 0 \<Longrightarrow>
   progress (bar_of (increment_seq a (s, w))) =
     int_of_double
       (fmul (fdiv (of_int (wrap32 (value' s + uint a))) (fl (of_int (num_jobs s)))) 100)"
  by (simp add: increment_seq_def increment_try_seq_def bar_of_def time_time_def Let_def
        split: prod.splits)

lemma percent_range:
  assumes "0 < n" "0 \<le> v" "v \<le> n" "v < 2 ^ 31"
  defines "d \<equiv> fmul (fdiv (of_int v) (fl (of_int n))) 100"
  shows "0 \<le> d" and "d \<le> 100"
proof -
  have v: "fl (of_int v) = of_int v" using assms(2,4) by (intro fl_of_int) simp
  have "fl (of_int v) \<le> fl (of_int n)" using assms(3) by (intro fl_mono) simp
  then have vn: "of_int v \<le> fl (of_int n)" by (simp only: v)
  have np: "0 < fl (of_int n)" using assms(1) by (intro fl_pos) simp
  have q0: "0 \<le> of_int v / fl (of_int n)" using assms(2) np by simp
  have q1: "of_int v / fl (of_int n) \<le> 1" using vn np by simp
  have f0: "0 \<le> fdiv (of_int v) (fl (of_int n))"
    unfolding fdiv_def using q0 by (rule fl_nonneg)
  have "fl (of_int v / fl (of_int n)) \<le> fl 1" using q1 by (rule fl_mono)
  then have f1: "fdiv (of_int v) (fl (of_int n)) \<le> 1" by (simp add: fdiv_def fl_1)
  show "0 \<le> d" unfolding d_def fmul_def using f0 by (intro fl_nonneg) simp
  have "fl (fdiv (of_int v) (fl (of_int n)) * 100) \<le> fl 100" using f1 by (intro fl_mono) simp
  then show "d \<le> 100" by (simp add: d_def fmul_def fl_100)
qed

text \<open>
  The integer-only \<^verbatim>\<open>increment\<close> when it does not reach \<^verbatim>\<open>complete\<close>: the call renders, or the
  percentage it computed differs from \<^verbatim>\<open>num_jobs\<close>.
\<close>

lemma increment_int_plain:
  fixes s :: "'z ProgressBar_scheme" and b :: "16 word" and w :: world
  defines "k \<equiv> (if start_time s = 0 then Suc (ticks w) else ticks w)"
  defines "v \<equiv> wrap32 (value' s + uint b)"
  defines "d \<equiv> fmul (fdiv (of_int v) (of_int (num_jobs s))) 100"
  defines "r \<equiv> increment_int b (s, w)"
  assumes "num_jobs s \<noteq> 0"
    and "print_interval s < fsub (clock w k) (last_print_time s) \<or> int_of_double d \<noteq> num_jobs s"
  shows "value' (bar_of r) = v \<and> num_jobs (bar_of r) = num_jobs s \<and>
         progress (bar_of r) = int_of_double d"
proof (cases "start_time s = 0")
  case True
  then show ?thesis
    using assms(5,6) unfolding r_def d_def v_def k_def
    by (auto simp add: increment_int_def increment_try_int_def bar_of_def time_time_def
          Let_def split: prod.splits)
next
  case False
  then show ?thesis
    using assms(5,6) unfolding r_def d_def v_def k_def
    by (auto simp add: increment_int_def increment_try_int_def bar_of_def time_time_def
          Let_def split: prod.splits)
qed

text \<open>
  Otherwise it runs \<^verbatim>\<open>complete\<close>, whatever the count: 25 of 50 jobs inside the interval give
  the percentage 50, which equals the total, and the bar jumps to 50 of 50 with the stored
  percentage 50. With the total \<open>-100\<close> (the low 32 bits of \<open>4294967196\<close>) the hundredth job
  gives the percentage \<open>-100\<close> and the count becomes \<open>-100\<close>.
\<close>

lemma increment_int_completes_early:
  "bar_of (increment_int 1 (sample_bar\<lparr>num_jobs := 50, value' := 24, progress := 48\<rparr>,
                            sample_world))
     = sample_bar\<lparr>num_jobs := 50, value' := 50, progress := 50\<rparr> \<and>
   sys_stdout (world_of (increment_int 1
       (sample_bar\<lparr>num_jobs := 50, value' := 24, progress := 48\<rparr>, sample_world)))
     = [UpdateLine, Summary ''0 ms'']"
  by code_simp

lemma increment_int_negative_total:
  "value' (bar_of (increment_int 1
       (sample_bar\<lparr>num_jobs := - 100, value' := 99, progress := - 99\<rparr>, sample_world)))
     = - 100"
  by code_simp

lemma errors_wrap_at_largest_int:
  "errors (bar_of (increment_seq 1 (zero_bar\<lparr>errors := 2147483647\<rparr>, sample_world)))
     = - 2147483648"
  by code_simp

subsection \<open>The rounding error of the percentage\<close>

text \<open>
  Each rounding changes a value by at most \<open>2 ^ - 53\<close> of itself, so the percentage computed
  in doubles differs from the exact one by less than one part in \<open>2 ^ 50\<close>, and its integer
  part is the exact floor or one less.
\<close>

lemma fl_error: "\<bar>fl x - x\<bar> \<le> \<bar>x\<bar> / 2 ^ 53"
proof (cases "x = 0")
  case True
  then show ?thesis by (simp add: fl_zero)
next
  case False
  let ?e = "binexp x - 52"
  let ?m = "x / pow2 ?e"
  have pe: "0 < pow2 ?e" by (rule pow2_pos)
  have x: "x = ?m * pow2 ?e" using pe by simp
  have "fl x - x = (of_int (round_half_even ?m) - ?m) * pow2 ?e"
    using pe by (simp add: fl_unfold [OF False] algebra_simps)
  then have "\<bar>fl x - x\<bar> = \<bar>of_int (round_half_even ?m) - ?m\<bar> * pow2 ?e"
    using pe by (simp add: abs_mult)
  also have "\<dots> \<le> (1 / 2) * pow2 ?e"
  proof (intro mult_right_mono)
    show "\<bar>of_int (round_half_even ?m) - ?m\<bar> \<le> 1 / 2"
      using round_half_even_bounds [of ?m] by linarith
    show "0 \<le> pow2 ?e" using pe by simp
  qed
  finally have h: "\<bar>fl x - x\<bar> \<le> pow2 ?e / 2" by simp
  have "pow2 ?e * 2 ^ 52 \<le> \<bar>x\<bar>"
    using binexp_bounds(1) [OF False] pow2_split_52 [of "binexp x"] by (simp add: pow2_52)
  then have "pow2 ?e / 2 \<le> \<bar>x\<bar> / 2 ^ 53" by simp
  with h show ?thesis by linarith
qed

lemma fl_rel:
  assumes "0 \<le> x"
  shows "x * (1 - 1 / 2 ^ 53) \<le> fl x" and "fl x \<le> x * (1 + 1 / 2 ^ 53)"
proof -
  have e: "\<bar>fl x - x\<bar> \<le> x / 2 ^ 53" using fl_error [of x] assms by simp
  have "x * (1 - 1 / 2 ^ 53) = x - x / 2 ^ 53" by (simp add: algebra_simps)
  then show "x * (1 - 1 / 2 ^ 53) \<le> fl x" using e by linarith
  have "x * (1 + 1 / 2 ^ 53) = x + x / 2 ^ 53" by (simp add: algebra_simps)
  then show "fl x \<le> x * (1 + 1 / 2 ^ 53)" using e by linarith
qed

lemma percent_near_exact:
  fixes n v :: int
  assumes "0 < n" "0 \<le> v"
  defines "d \<equiv> fmul (fdiv (of_int v) (fl (of_int n))) 100"
  shows "100 * of_int v * (1 - 3 / 2 ^ 53) \<le> d * of_int n"
    and "d * of_int n \<le> 100 * of_int v * (1 + 4 / 2 ^ 53)"
proof -
  define u :: rat where "u = 1 / 2 ^ 53"
  define N :: rat where "N = of_int n"
  define V :: rat where "V = of_int v"
  define N' where "N' = fl N"
  define q where "q = V / N'"
  define a where "a = fl q"
  have u: "0 < u" "u < 1 / 5" by (simp_all add: u_def)
  have N: "0 < N" using assms(1) by (simp add: N_def)
  have V: "0 \<le> V" using assms(2) by (simp add: V_def)
  have N'pos: "0 < N'" unfolding N'_def using N by (rule fl_pos)
  have n1: "N * (1 - u) \<le> N'" and n2: "N' \<le> N * (1 + u)"
    using fl_rel [of N] N by (simp_all add: N'_def u_def)
  have q0: "0 \<le> q" using V N'pos by (simp add: q_def)
  have qN: "q * N' = V" using N'pos by (simp add: q_def)
  have a1: "q * (1 - u) \<le> a" and a2: "a \<le> q * (1 + u)"
    using fl_rel [of q] q0 by (simp_all add: a_def u_def)
  have a0: "0 \<le> a" unfolding a_def using q0 by (rule fl_nonneg)
  have d: "d = fl (a * 100)"
    by (simp add: d_def fmul_def fdiv_def a_def q_def N'_def V_def N_def)
  have d1: "a * 100 * (1 - u) \<le> d" and d2: "d \<le> a * 100 * (1 + u)"
    using fl_rel [of "a * 100"] a0 by (simp_all add: d u_def)
  have up: "d * N \<le> 100 * V * (1 + 4 * u)"
  proof -
    have "d * (N * (1 - u)) \<le> (a * 100 * (1 + u)) * (N * (1 - u))"
      using d2 N u by (intro mult_right_mono) simp_all
    also have "\<dots> \<le> (q * (1 + u) * 100 * (1 + u)) * (N * (1 - u))"
      using a2 N u by (intro mult_right_mono) simp_all
    also have "\<dots> = (100 * (1 + u) * (1 + u)) * (q * (N * (1 - u)))"
      by (simp add: algebra_simps)
    also have "\<dots> \<le> (100 * (1 + u) * (1 + u)) * (q * N')"
      using n1 q0 u by (intro mult_left_mono) simp_all
    also have "\<dots> = 100 * V * ((1 + u) * (1 + u))" by (simp add: qN)
    also have "\<dots> \<le> 100 * V * ((1 + 4 * u) * (1 - u))"
    proof (intro mult_left_mono)
      have "0 \<le> u * (1 - 5 * u)" using u by (intro mult_nonneg_nonneg) simp_all
      then show "(1 + u) * (1 + u) \<le> (1 + 4 * u) * (1 - u)" by (simp add: algebra_simps)
      show "0 \<le> 100 * V" using V by simp
    qed
    finally have "(d * N) * (1 - u) \<le> (100 * V * (1 + 4 * u)) * (1 - u)"
      by (simp add: algebra_simps)
    then show ?thesis by (rule mult_right_le_imp_le) (use u in simp)
  qed
  have lo: "100 * V * (1 - 3 * u) \<le> d * N"
  proof -
    have "100 * V * ((1 - 3 * u) * (1 + u)) \<le> 100 * V * ((1 - u) * (1 - u))"
    proof (intro mult_left_mono)
      have "0 \<le> 4 * (u * u)" by simp
      then show "(1 - 3 * u) * (1 + u) \<le> (1 - u) * (1 - u)" by (simp add: algebra_simps)
      show "0 \<le> 100 * V" using V by simp
    qed
    also have "\<dots> = (100 * (1 - u) * (1 - u)) * (q * N')" by (simp add: qN)
    also have "\<dots> \<le> (100 * (1 - u) * (1 - u)) * (q * (N * (1 + u)))"
      using n2 q0 u by (intro mult_left_mono) simp_all
    also have "\<dots> = (q * (1 - u) * 100 * (1 - u)) * (N * (1 + u))"
      by (simp add: algebra_simps)
    also have "\<dots> \<le> (a * 100 * (1 - u)) * (N * (1 + u))"
      using a1 N u by (intro mult_right_mono) simp_all
    also have "\<dots> \<le> d * (N * (1 + u))"
      using d1 N u by (intro mult_right_mono) simp_all
    finally have "(100 * V * (1 - 3 * u)) * (1 + u) \<le> (d * N) * (1 + u)"
      by (simp add: algebra_simps)
    then show ?thesis by (rule mult_right_le_imp_le) (use u in simp)
  qed
  show "100 * of_int v * (1 - 3 / 2 ^ 53) \<le> d * of_int n"
    using lo by (simp add: V_def N_def u_def)
  show "d * of_int n \<le> 100 * of_int v * (1 + 4 / 2 ^ 53)"
    using up by (simp add: V_def N_def u_def)
qed

lemma percent_floor_near_exact:
  fixes n v :: int
  assumes "0 < n" "0 \<le> v" "v < 2 ^ 31"
  defines "d \<equiv> fmul (fdiv (of_int v) (fl (of_int n))) 100"
  defines "F \<equiv> \<lfloor>(of_int v :: rat) / of_int n * 100\<rfloor>"
  shows "F - 1 \<le> \<lfloor>d\<rfloor>" and "\<lfloor>d\<rfloor> \<le> F"
proof -
  note b = percent_near_exact [OF assms(1,2), folded d_def]
  have N: "(0 :: rat) < of_int n" using assms(1) by simp
  have "(of_int v :: rat) / of_int n * 100 = of_int (100 * v) / of_int n" by simp
  then have Fn: "F = (100 * v) div n"
    unfolding F_def by (simp only: floor_divide_of_int_eq)
  have dm: "F * n + (100 * v) mod n = 100 * v"
    unfolding Fn by (rule div_mult_mod_eq)
  have m0: "0 \<le> (100 * v) mod n" and m1: "(100 * v) mod n < n"
    using assms(1) by simp_all
  have f1: "F * n \<le> 100 * v" using dm m0 by linarith
  have "(F + 1) * n = F * n + n" by (simp add: algebra_simps)
  then have f2: "100 * v < (F + 1) * n" using dm m1 by linarith
  have s: "(100 :: rat) * of_int v * (4 / 2 ^ 53) < 1"
  proof -
    have "(of_int v :: rat) < of_int (2 ^ 31)" using assms(3) by (simp only: of_int_less_iff)
    then show ?thesis by simp
  qed
  have s3: "(100 :: rat) * of_int v * (3 / 2 ^ 53) < 1"
    using s assms(2) by (simp add: algebra_simps)
  have "d * of_int n < 100 * of_int v + 1"
    using b(2) s by (simp add: algebra_simps)
  also have "\<dots> \<le> of_int ((F + 1) * n)"
  proof -
    have "100 * v + 1 \<le> (F + 1) * n" using f2 by simp
    then have "(of_int (100 * v + 1) :: rat) \<le> of_int ((F + 1) * n)" by (simp only: of_int_le_iff)
    then show ?thesis by simp
  qed
  finally have "d * of_int n < of_int (F + 1) * of_int n" by simp
  then have "d < of_int (F + 1)" by (rule mult_right_less_imp_less) (use N in simp)
  then have "\<lfloor>d\<rfloor> < F + 1" by (simp only: floor_less_iff)
  then show "\<lfloor>d\<rfloor> \<le> F" by simp
  have "of_int ((F - 1) * n) \<le> (of_int (100 * v - 1) :: rat)"
  proof -
    have "(F - 1) * n \<le> 100 * v - 1" using f1 assms(1) by (simp add: algebra_simps)
    then show ?thesis by (simp only: of_int_le_iff)
  qed
  also have "\<dots> \<le> d * of_int n" using b(1) s3 by (simp add: algebra_simps)
  finally have "of_int (F - 1) * of_int n \<le> d * of_int n" by simp
  then have "of_int (F - 1) \<le> d" by (rule mult_right_le_imp_le) (use N in simp)
  then show "F - 1 \<le> \<lfloor>d\<rfloor>" by (simp only: le_floor_iff)
qed

subsection \<open>Rendering in the iterable-aware variant\<close>

text \<open>
  A call that makes \<^verbatim>\<open>_value\<close> equal to a non-zero \<^verbatim>\<open>num_jobs\<close> always ends by writing the final
  line; and of two calls whose clock readings differ by no more than the interval, at most
  one writes a progress line.
\<close>

lemma increment_seq_paints_total:
  fixes s :: "'z ProgressBar_scheme" and a :: "32 word" and w :: world
  defines "r \<equiv> increment_seq a (s, w)"
  assumes "num_jobs s \<noteq> 0" and "to_ulong (wrap32 (value' s + uint a)) = num_jobs s"
  shows "length (sys_stdout w) < length (sys_stdout (world_of r)) \<and>
         last (sys_stdout (world_of r)) = FinalLine (throughput (bar_of r)) (progress (bar_of r))"
  using assms(2,3) unfolding r_def
  by (simp add: increment_seq_def increment_try_seq_def bar_of_def world_of_def
        time_time_def emit_def Let_def split: prod.splits)

lemma increment_seq_call:
  fixes s :: "'z ProgressBar_scheme" and a :: "32 word" and w :: world
  defines "r \<equiv> increment_seq a (s, w)"
  defines "due \<equiv> print_interval s < fsub (clock w (ticks w)) (last_print_time s)"
  assumes "num_jobs s \<noteq> 0" and "start_time s \<noteq> 0"
  shows "clock (world_of r) = clock w \<and> num_jobs (bar_of r) = num_jobs s \<and>
         start_time (bar_of r) = start_time s \<and> print_interval (bar_of r) = print_interval s \<and>
         last_print_time (bar_of r) = (if due then clock w (ticks w) else last_print_time s) \<and>
         ticks (world_of r) = (if due then Suc (Suc (ticks w)) else Suc (ticks w)) \<and>
         repaints (sys_stdout (world_of r)) =
           (if due then Suc (repaints (sys_stdout w)) else repaints (sys_stdout w))"
  using assms(3,4) unfolding r_def due_def
  by (simp add: increment_seq_def increment_try_seq_def bar_of_def world_of_def
        time_time_def emit_def repaints_def Let_def split: prod.splits)

lemma increment_seq_throttle:
  fixes s :: "'z ProgressBar_scheme" and a b :: "32 word" and w :: world
  defines "r1 \<equiv> increment_seq a (s, w)"
  defines "r2 \<equiv> increment_seq b (bar_of r1, world_of r1)"
  assumes "num_jobs s \<noteq> 0" and "start_time s \<noteq> 0"
    and "\<not> print_interval s < fsub (clock w (ticks (world_of r1))) (clock w (ticks w))"
  shows "repaints (sys_stdout (world_of r2)) \<le> Suc (repaints (sys_stdout w))"
proof -
  note c1 = increment_seq_call [OF assms(3,4), of a w, folded r1_def]
  have n1: "num_jobs (bar_of r1) \<noteq> 0" "start_time (bar_of r1) \<noteq> 0"
    using c1 assms(3,4) by simp_all
  note c2 = increment_seq_call [OF n1, of b "world_of r1", folded r2_def]
  show ?thesis
  proof (cases "print_interval s < fsub (clock w (ticks w)) (last_print_time s)")
    case True
    with c1 have l: "last_print_time (bar_of r1) = clock w (ticks w)"
      "repaints (sys_stdout (world_of r1)) = Suc (repaints (sys_stdout w))" by simp_all
    from c1 have k: "clock (world_of r1) = clock w" "print_interval (bar_of r1) = print_interval s"
      by simp_all
    from c2 assms(5) show ?thesis by (simp add: l k)
  next
    case False
    with c1 have "repaints (sys_stdout (world_of r1)) = repaints (sys_stdout w)" by simp
    with c2 show ?thesis by (simp split: if_splits)
  qed
qed

subsection \<open>The metrics while the count stays within the total\<close>

text \<open>
  The metrics of \<^verbatim>\<open>increment\<close> in the iterable-aware variant when it renders (the total is
  positive and the time since the last render exceeds the interval). With \<open>v\<close> the new
  count and \<open>elapsed\<close> the second clock reading minus the start time: \<^verbatim>\<open>execution_time\<close> is
  \<open>elapsed\<close>; \<^verbatim>\<open>throughput\<close> is \<open>v / elapsed\<close> when \<open>elapsed\<close> is positive and 0 otherwise;
  and, as long as the count does not exceed the total, the remaining time written on the
  line is \<open>(elapsed / v) * (total - v)\<close> when \<open>v\<close> is positive and 0 otherwise. Every
  operation is a double operation.
\<close>

theorem increment_metrics:
  fixes s :: "'z ProgressBar_scheme" and a :: "32 word" and w :: world
  defines "start \<equiv> (if start_time s = 0 then clock w (ticks w) else start_time s)"
  defines "k \<equiv> (if start_time s = 0 then Suc (ticks w) else ticks w)"
  defines "v \<equiv> wrap32 (value' s + uint a)"
  defines "elapsed \<equiv> fsub (clock w (Suc k)) start"
  defines "r \<equiv> increment_seq a (s, w)"
  assumes "0 < num_jobs s" and "num_jobs s < 2 ^ 64" and "v \<le> num_jobs s"
    and "print_interval s < fsub (clock w k) (last_print_time s)"
  shows "value' (bar_of r) = v \<and>
         execution_time (bar_of r) = elapsed \<and>
         throughput (bar_of r) = (if 0 < elapsed then fdiv (of_int v) elapsed else 0) \<and>
         sys_stdout (world_of r) =
           sys_stdout w @
             ProgressLine (throughput (bar_of r)) (progress (bar_of r))
               (if 0 < v then fmul (fdiv elapsed (of_int v)) (fl (of_int (num_jobs s - v)))
                else 0)
               elapsed #
             (if to_ulong v = num_jobs s
              then [FinalLine (throughput (bar_of r)) (progress (bar_of r))] else [])"
proof -
  have u: "0 < v \<Longrightarrow> to_ulong (num_jobs s - v) = num_jobs s - v"
    using assms(7,8) by (simp add: to_ulong_def)
  note defs = increment_seq_def increment_try_seq_def bar_of_def world_of_def
    time_time_def emit_def Let_def
  show ?thesis
  proof (cases "start_time s = 0")
    case True
    then show ?thesis
      using assms(6,9) u
      unfolding r_def elapsed_def k_def start_def v_def
      by (simp add: defs split: prod.splits)
  next
    case False
    then show ?thesis
      using assms(6,9) u
      unfolding r_def elapsed_def k_def start_def v_def
      by (simp add: defs split: prod.splits)
  qed
qed

theorem increment_metrics_witness:
  "0 < num_jobs overshoot_bar \<and> num_jobs overshoot_bar < 2 ^ 64 \<and>
   wrap32 (value' overshoot_bar + uint (0 :: 32 word)) \<le> num_jobs overshoot_bar \<and>
   print_interval overshoot_bar
     < fsub (clock sample_world (ticks sample_world)) (last_print_time overshoot_bar) \<and>
   value' (bar_of (increment_seq 0 (overshoot_bar, sample_world))) = 1 \<and>
   execution_time (bar_of (increment_seq 0 (overshoot_bar, sample_world))) = 1 / 64 \<and>
   throughput (bar_of (increment_seq 0 (overshoot_bar, sample_world))) = 64"
proof -
  have h: "0 < num_jobs overshoot_bar" "num_jobs overshoot_bar < 2 ^ 64"
    "wrap32 (value' overshoot_bar + uint (0 :: 32 word)) \<le> num_jobs overshoot_bar"
    by (simp_all add: overshoot_bar_def sample_bar_def wrap32_def)
  have g: "start_time overshoot_bar \<noteq> 0" "wrap32 (value' overshoot_bar) = 1"
    by (simp_all add: overshoot_bar_def sample_bar_def wrap32_def)
  have i: "print_interval overshoot_bar
     < fsub (clock sample_world (ticks sample_world)) (last_print_time overshoot_bar)"
    by code_simp
  have e: "fsub (clock sample_world (Suc (ticks sample_world))) (start_time overshoot_bar)
     = 1 / 64" "fdiv 1 (1 / 64) = 64"
    by code_simp+
  note c = increment_metrics [where s = overshoot_bar and a = 0 and w = sample_world]
  from c h i show ?thesis by (simp add: g e)
qed

text \<open>
  In the integer-only variant \<^verbatim>\<open>num_jobs - _value\<close> is a signed subtraction: with one job and
  a count of two the remaining time written is \<open>(elapsed / 2) * (1 - 2)\<close>.
\<close>

lemma increment_int_eta_on_overshoot:
  "sys_stdout (world_of (increment_int 1 (overshoot_bar, sample_world)))
     = [ProgressLine_int 200 (1 / 64) (- (1 / 128)) 1024]"
  by code_simp

section \<open>Properties of iteration\<close>

lemma increment_seq_keeps_sequence:
  fixes s :: "'a ProgressBarSeq"
  shows "index' (bar_of (increment_seq a (s, w))) = index' s \<and>
         sequence (bar_of (increment_seq a (s, w))) = sequence s"
  by (simp add: increment_seq_def increment_try_seq_def bar_of_def time_time_def Let_def
        split: prod.splits)

lemma next_seq_pull:
  fixes s :: "'a ProgressBarSeq" and w :: world
  assumes "sequence s = Some xs" "0 \<le> index' s" "index' s < int (length xs)"
  defines "r \<equiv> increment_seq 1 (s\<lparr>index' := wrap32 (index' s + 1)\<rparr>, w)"
  shows "next_seq (s, w) = (Inr (xs ! nat (index' s)), bar_of r, world_of r)"
proof -
  obtain e s1 w1 where r: "r = (e, s1, w1)" by (cases r)
  have "raised r = None" unfolding r_def by (rule raised_increment_seq)
  then have e: "e = None" by (simp add: r raised_def)
  show ?thesis
    using assms(1,2,3) r [unfolded r_def]
    by (simp add: next_seq_def Let_def e bar_of_def world_of_def r)
qed

lemma next_seq_stop:
  assumes "sequence s = Some xs" "int (length xs) \<le> index' s"
  shows "next_seq (s, w) = (Inl StopIteration, s, w)"
  using assms by (simp add: next_seq_def)

lemma drain_rest:
  fixes s :: "'a ProgressBarSeq"
  assumes "sequence s = Some xs" "index' s = int i" "i \<le> length xs" "length xs < 2 ^ 31"
    and "0 \<le> value' s" "value' s + int (length xs - i) < 2 ^ 31" "length xs - i < fuel"
  shows "\<exists>s' w'. drain fuel (s, w) = Some (drop i xs, s', w') \<and>
           value' s' = value' s + int (length xs - i) \<and> index' s' = int (length xs) \<and>
           sequence s' = Some xs"
  using assms
proof (induction "length xs - i" arbitrary: i s w fuel)
  case 0
  then have i: "i = length xs" by simp
  from 0 obtain f where f: "fuel = Suc f" by (cases fuel) simp_all
  have "next_seq (s, w) = (Inl StopIteration, s, w)"
    using next_seq_stop [of s xs w] "0.prems"(1,2) i by simp
  then show ?case using "0.prems"(1,2) i by (simp add: f)
next
  case (Suc n)
  then have i: "i < length xs" by simp
  from Suc.prems obtain f where f: "fuel = Suc f" by (cases fuel) simp_all
  define r where "r = increment_seq 1 (s\<lparr>index' := wrap32 (index' s + 1)\<rparr>, w)"
  have nx: "next_seq (s, w) = (Inr (xs ! i), bar_of r, world_of r)"
    using next_seq_pull [of s xs w] Suc.prems(1,2) i by (simp add: r_def)
  have wi: "wrap32 (int i + 1) = int i + 1"
    using i Suc.prems(4) by (intro wrap32_id) (simp add: int32_def)
  have wv: "wrap32 (value' s + 1) = value' s + 1"
    using Suc.prems(5,6) i by (intro wrap32_id) (simp add: int32_def)
  have s1: "sequence (bar_of r) = Some xs" "index' (bar_of r) = int (Suc i)"
    using increment_seq_keeps_sequence [of 1 "s\<lparr>index' := wrap32 (index' s + 1)\<rparr>" w]
      Suc.prems(1,2) by (simp_all add: r_def wi)
  have v1: "value' (bar_of r) = value' s + 1"
    unfolding r_def by (simp add: value_increment_seq wv)
  have "\<exists>s' w'. drain f (bar_of r, world_of r) = Some (drop (Suc i) xs, s', w') \<and>
           value' s' = value' (bar_of r) + int (length xs - Suc i) \<and>
           index' s' = int (length xs) \<and> sequence s' = Some xs"
  proof (rule Suc.hyps(1))
    show "n = length xs - Suc i" using Suc.hyps(2) by simp
    show "sequence (bar_of r) = Some xs" by (rule s1(1))
    show "index' (bar_of r) = int (Suc i)" by (rule s1(2))
    show "Suc i \<le> length xs" using i by simp
    show "length xs < 2 ^ 31" by (rule Suc.prems(4))
    show "0 \<le> value' (bar_of r)" using Suc.prems(5) by (simp add: v1)
    show "value' (bar_of r) + int (length xs - Suc i) < 2 ^ 31"
      using Suc.prems(6) i by (simp add: v1)
    show "length xs - Suc i < f" using Suc.prems(7) f i by simp
  qed
  then obtain s' w' where d: "drain f (bar_of r, world_of r) = Some (drop (Suc i) xs, s', w')"
    "value' s' = value' (bar_of r) + int (length xs - Suc i)"
    "index' s' = int (length xs)" "sequence s' = Some xs" by blast
  have "drain fuel (s, w) = Some (xs ! i # drop (Suc i) xs, s', w')"
    by (simp add: f nx d(1))
  moreover have "xs ! i # drop (Suc i) xs = drop i xs"
    using i by (rule Cons_nth_drop_Suc)
  moreover have "value' s' = value' s + int (length xs - i)"
    using d(2) v1 i by simp
  ultimately show ?case using d(3,4) by simp
qed

text \<open>
  An iterator is consumed by \<^verbatim>\<open>len(list(jobs))\<close>: the bar counts its items and keeps an empty
  list, so the first pull already raises \<^verbatim>\<open>StopIteration\<close>.
\<close>

lemma init_seq_iterator_is_emptied:
  "init_seq (JIter xs) t p i w = Inr (s0, w0) \<Longrightarrow>
   num_jobs s0 = int (length xs) \<and> sequence s0 = Some [] \<and>
   next_seq (s0, w0) = (Inl StopIteration, s0, w0)"
  by (auto simp add: init_seq_def next_seq_def time_time_def Let_def split: prod.splits if_splits)

section \<open>Properties of the duration string\<close>

text \<open>
  What \<^verbatim>\<open>__str__\<close> returns for a duration \<open>t\<close> that is a double, range by range. Below one
  second it is the millisecond count with no decimals and the unit \<^verbatim>\<open>ms\<close>, and from 1 s up
  to 60 s the seconds with two decimals and the unit \<^verbatim>\<open>seconds\<close>. In the next two ranges the
  loop leaves with the remainder of the previous unit under the name of the current one:
  from 60 s up to 3600 s the seconds within the minute under \<^verbatim>\<open>seconds\<close>, and from 3600 s up
  to 216000 s the seconds within the hour under \<^verbatim>\<open>minutes\<close>. The return after the loop, the
  only one with an hour count in front, is reached in none of these ranges.
\<close>

theorem duration_string_by_range:
  assumes "fl t = t"
  shows "(t < 1 \<longrightarrow> str_of t = fmt_f 0 (fdiv t (fl (1 / 1000))) @ '' ms'') \<and>
         (1 \<le> t \<and> t < 60 \<longrightarrow> str_of t = fmt_f 2 t @ '' seconds'') \<and>
         (60 \<le> t \<and> t < 3600 \<longrightarrow>
            str_of t = fmt_f 0 (t - 60 * of_int \<lfloor>t / 60\<rfloor>) @ '' seconds'') \<and>
         (3600 \<le> t \<and> t < 216000 \<longrightarrow>
            str_of t = fmt_f 0 (t - 3600 * of_int \<lfloor>t / 3600\<rfloor>) @ '' minutes'')"
proof (intro conjI impI)
  assume "t < 1"
  then show "str_of t = fmt_f 0 (fdiv t (fl (1 / 1000))) @ '' ms''"
    by (simp add: str_of_def TimeUnits_def TimeUnits_seconds_def TimeUnits_ms_def
          template_format_def)
next
  have one: "fdiv t 1 = t" using assms by (simp add: fdiv_def)
  {
    assume a: "1 \<le> t \<and> t < 60"
    then have f: "\<lfloor>t / 60\<rfloor> = 0" by (intro floor_unique) simp_all
    have "py_mod t 60 = t" using py_mod_nonneg(1) [of t 60] a f by simp
    with a show "str_of t = fmt_f 2 t @ '' seconds''"
      by (simp add: str_of_def TimeUnits_def TimeUnits_seconds_def TimeUnits_minutes_def
            template_format_def one fabs_def)
  }
  {
    assume a: "60 \<le> t \<and> t < 3600"
    have m: "py_mod t 60 = t - 60 * of_int \<lfloor>t / 60\<rfloor>" "0 \<le> t - 60 * of_int \<lfloor>t / 60\<rfloor>"
      using py_mod_nonneg [of t 60] a by simp_all
    with a show "str_of t = fmt_f 0 (t - 60 * of_int \<lfloor>t / 60\<rfloor>) @ '' seconds''"
      by (simp add: str_of_def TimeUnits_def TimeUnits_seconds_def TimeUnits_minutes_def
            TimeUnits_hours_def template_format_def one fabs_def)
  }
  {
    assume a: "3600 \<le> t \<and> t < 216000"
    then have lt: "fdiv t 60 < 3600" using minutes_below_3600 [OF assms] by simp
    have m: "py_mod t 3600 = t - 3600 * of_int \<lfloor>t / 3600\<rfloor>"
        "0 \<le> t - 3600 * of_int \<lfloor>t / 3600\<rfloor>"
      using py_mod_nonneg [of t 3600] a by simp_all
    have "fl 60 \<le> fl (t / 60)" using a by (intro fl_mono) simp
    then have g: "60 \<le> fdiv t 60" by (simp add: fl_60 fdiv_def)
    from a m g lt show "str_of t = fmt_f 0 (t - 3600 * of_int \<lfloor>t / 3600\<rfloor>) @ '' minutes''"
      by (simp add: str_of_def TimeUnits_def TimeUnits_seconds_def TimeUnits_minutes_def
            TimeUnits_hours_def template_format_def one fabs_def)
  }
qed

theorem duration_string_by_range_witness:
  "fl (1 / 2) = 1 / 2 \<and> str_of (1 / 2) = ''500 ms'' \<and>
   fl (3 / 2) = 3 / 2 \<and> str_of (3 / 2) = ''1.50 seconds'' \<and>
   fl 90 = 90 \<and> str_of 90 = ''30 seconds'' \<and>
   fl 3700 = 3700 \<and> str_of 3700 = ''100 minutes''"
proof -
  have d: "fl (1 / 2) = 1 / 2" "fl (3 / 2) = 3 / 2" "fl 90 = 90" "fl 3700 = 3700"
    by code_simp+
  have e: "fmt_f 0 (fdiv (1 / 2) (fl (1 / 1000))) = ''500''" "fmt_f 2 (3 / 2) = ''1.50''"
    "fmt_f 0 (90 - 60 * of_int \<lfloor>90 / 60 :: rat\<rfloor>) = ''30''"
    "fmt_f 0 (3700 - 3600 * of_int \<lfloor>3700 / 3600 :: rat\<rfloor>) = ''100''"
    by code_simp+
  show ?thesis
    using duration_string_by_range [OF d(1)] duration_string_by_range [OF d(2)]
      duration_string_by_range [OF d(3)] duration_string_by_range [OF d(4)] e d
    by simp
qed

section \<open>Properties of completion\<close>

text \<open>
  \<^verbatim>\<open>complete\<close> of the integer-only variant assigns \<^verbatim>\<open>num_jobs\<close> to \<^verbatim>\<open>_value\<close>; its \<^verbatim>\<open>update\<close> then
  stores that count in \<^verbatim>\<open>progress\<close>, the field that holds the percentage. \<^verbatim>\<open>complete\<close> of the
  iterable-aware variant assigns nothing. In both, a second call leaves the fields as the
  first one left them.
\<close>

lemma complete_in_each_variant:
  fixes s :: "'z ProgressBar_scheme"
  shows "fst (complete_int (s, w)) = s\<lparr>value' := num_jobs s, progress := num_jobs s\<rparr> \<and>
         sys_stdout (snd (complete_int (s, w))) =
           sys_stdout w @ UpdateLine #
             (if print_on_exit s then [Summary (str_of (execution_time s))] else []) \<and>
         fst (complete_int (complete_int (s, w))) = fst (complete_int (s, w)) \<and>
         fst (complete_seq (s, w)) = s \<and>
         sys_stdout (snd (complete_seq (s, w))) = sys_stdout w @ [CompleteLine] \<and>
         fst (complete_seq (complete_seq (s, w))) = fst (complete_seq (s, w))"
  by (simp add: complete_int_def update_int_def complete_seq_def emit_def Let_def)

section \<open>The claims\<close>

text \<open>
  C1, as the code has it. On every exit of the \<^verbatim>\<open>with\<close> statement, whether the body finished
  (\<open>exc = None\<close>) or raised, \<^verbatim>\<open>__exit__\<close> stores the clock reading in \<^verbatim>\<open>end_time\<close>, stores
  \<^verbatim>\<open>end_time - start_time\<close> in \<^verbatim>\<open>execution_time\<close>, and prints the summary exactly once when
  \<^verbatim>\<open>print_on_exit\<close> is set (the integer-only variant paints the full bar first). It returns
  \<^verbatim>\<open>exc_type is not None\<close>: a true value exactly when the body raised. The \<^verbatim>\<open>with\<close> statement
  therefore never raises the exception of its body again.
\<close>

theorem exit_runs_always_and_suppresses:
  fixes s :: "'z ProgressBar_scheme" and w :: world and exc :: "exn option"
  defines "now \<equiv> clock w (ticks w)"
  defines "r \<equiv> exit_seq exc (s, w)" and "r2 \<equiv> exit_int exc (s, w)"
  shows "end_time (bar_of r) = now \<and>
         execution_time (bar_of r) = fsub now (start_time s) \<and>
         sys_stdout (world_of r) =
           sys_stdout w @
             (if print_on_exit s then [Summary (str_of (fsub now (start_time s)))] else []) \<and>
         raised r = (exc \<noteq> None) \<and>
         end_time (bar_of r2) = now \<and>
         execution_time (bar_of r2) = fsub now (start_time s) \<and>
         sys_stdout (world_of r2) =
           sys_stdout w @ UpdateLine #
             (if print_on_exit s then [Summary (str_of (fsub now (start_time s)))] else []) \<and>
         raised r2 = (exc \<noteq> None) \<and>
         raised (with_stmt enter exit_seq body (s, w)) = None \<and>
         raised (with_stmt enter exit_int body (s, w)) = None"
proof -
  have a: "raised (exit_seq e sw) = (e \<noteq> None)"
    for e and sw :: "'z ProgressBar_scheme \<times> world"
    by (cases sw) (simp add: exit_seq_def raised_def time_time_def Let_def)
  have b: "raised (exit_int e sw) = (e \<noteq> None)"
    for e and sw :: "'z ProgressBar_scheme \<times> world"
    by (cases sw)
      (simp add: exit_int_def complete_int_def update_int_def raised_def time_time_def Let_def)
  have c: "raised (with_stmt enter exit_seq body (s, w)) = None"
    using a [of "fst (body (enter (s, w)))" "snd (body (enter (s, w)))"]
    by (simp add: with_stmt_def raised_def Let_def split: prod.splits) auto
  have d: "raised (with_stmt enter exit_int body (s, w)) = None"
    using b [of "fst (body (enter (s, w)))" "snd (body (enter (s, w)))"]
    by (simp add: with_stmt_def raised_def Let_def split: prod.splits) auto
  show ?thesis
    unfolding r_def r2_def now_def
    by (simp add: c d a b)
       (simp add: exit_seq_def exit_int_def complete_int_def update_int_def bar_of_def
          world_of_def time_time_def emit_def Let_def)
qed

text \<open>
  C1, as stated, fails: a body that raises \<^verbatim>\<open>KeyboardInterrupt\<close> leaves the \<^verbatim>\<open>with\<close> statement
  of either variant without any exception.
\<close>

theorem exit_swallows_exception:
  "raised (with_stmt enter exit_seq interrupted_body (sample_bar, sample_world))
     \<noteq> Some KeyboardInterrupt \<and>
   raised (with_stmt enter exit_int interrupted_body (sample_bar, sample_world))
     \<noteq> Some KeyboardInterrupt"
  by (simp add: with_stmt_def exit_seq_def exit_int_def complete_int_def update_int_def
        interrupted_body_def enter_def raised_def time_time_def Let_def split: prod.splits)

text \<open>
  C2 at the inputs where \<^verbatim>\<open>__str__\<close> breaks it. Its docstring is "Convert result from seconds
  to hours, minutes, seconds, and/or milliseconds". For 90 seconds it returns \<^verbatim>\<open>30 seconds\<close>,
  where the claim has a string in \<^verbatim>\<open>minutes\<close>; for 3700 seconds it returns \<^verbatim>\<open>100 minutes\<close> and
  for 7200 seconds \<^verbatim>\<open>0 minutes\<close>, where the claim has an hour count in front of the minutes.
\<close>

theorem duration_string_units_differ:
  "str_of 90 = ''30 seconds'' \<and> str_of 90 \<noteq> ''30.00 minutes'' \<and>
   str_of 90 \<noteq> fmt_f 0 (py_mod 90 60) @ '' minutes'' \<and>
   str_of 3700 = ''100 minutes'' \<and> str_of 3700 \<noteq> ''1 02 minutes'' \<and>
   str_of 7200 = ''0 minutes''"
  by code_simp

text \<open>
  C3 at the inputs where \<^verbatim>\<open>complete\<close> breaks it. The bar has ten jobs, nine of them done, and
  the stored percentage 90. \<^verbatim>\<open>complete\<close> of the iterable-aware variant paints the full bar and
  leaves the count at nine, where the integer-only variant assigns \<^verbatim>\<open>num_jobs\<close> to \<^verbatim>\<open>_value\<close>.
  \<^verbatim>\<open>complete\<close> of the integer-only variant sets the count to ten, and its \<^verbatim>\<open>update\<close> then lowers
  the stored percentage from 90 to 10.
\<close>

theorem complete_seq_keeps_value:
  "num_jobs sample_bar = 10 \<and> progress sample_bar = 90 \<and>
   value' (fst (complete_seq (sample_bar, sample_world))) = 9 \<and>
   value' (fst (complete_seq (sample_bar, sample_world))) \<noteq> num_jobs sample_bar \<and>
   sys_stdout (snd (complete_seq (sample_bar, sample_world))) = [CompleteLine] \<and>
   value' (fst (complete_int (sample_bar, sample_world))) = 10 \<and>
   progress (fst (complete_int (sample_bar, sample_world))) = 10"
  by (simp add: complete_seq_def complete_int_def update_int_def emit_def sample_bar_def
        sample_world_def Let_def)

text \<open>
  C4, as the code has it. When \<^verbatim>\<open>num_jobs\<close> is zero, \<^verbatim>\<open>increment\<close> of either variant, called with
  an amount of its C parameter type, raises nothing, writes nothing, and leaves
  \<^verbatim>\<open>progress\<close>, \<^verbatim>\<open>throughput\<close>, \<^verbatim>\<open>execution_time\<close> and \<^verbatim>\<open>last_print_time\<close> as they were; it adds
  exactly one to \<^verbatim>\<open>errors\<close> provided the sum fits the 32-bit \<^verbatim>\<open>int\<close> field.
\<close>

theorem increment_zero_total_counts_error:
  fixes s :: "'z ProgressBar_scheme" and a :: "32 word" and b :: "16 word" and w :: world
  assumes "num_jobs s = 0"
  defines "r \<equiv> increment_seq a (s, w)" and "r2 \<equiv> increment_int b (s, w)"
  shows "raised r = None \<and>
         progress (bar_of r) = progress s \<and> throughput (bar_of r) = throughput s \<and>
         execution_time (bar_of r) = execution_time s \<and>
         last_print_time (bar_of r) = last_print_time s \<and>
         sys_stdout (world_of r) = sys_stdout w \<and>
         raised r2 = None \<and>
         progress (bar_of r2) = progress s \<and> throughput (bar_of r2) = throughput s \<and>
         execution_time (bar_of r2) = execution_time s \<and>
         last_print_time (bar_of r2) = last_print_time s \<and>
         sys_stdout (world_of r2) = sys_stdout w \<and>
         (int32 (errors s + 1) \<longrightarrow>
            errors (bar_of r) = errors s + 1 \<and> errors (bar_of r2) = errors s + 1)"
  unfolding r_def r2_def
  using assms(1)
  by (simp add: increment_seq_zero_total increment_int_zero_total raised_def bar_of_def
        world_of_def wrap32_id)

theorem increment_zero_total_counts_error_witness:
  "num_jobs zero_bar = 0 \<and> int32 (errors zero_bar + 1) \<and>
   raised (increment_seq 1 (zero_bar, sample_world)) = None \<and>
   errors (bar_of (increment_seq 1 (zero_bar, sample_world))) = 1 \<and>
   errors (bar_of (increment_int 1 (zero_bar, sample_world))) = 1"
  using increment_zero_total_counts_error
          [where s = zero_bar and a = 1 and b = 1 and w = sample_world]
  by (simp add: zero_bar_def sample_bar_def int32_def)

text \<open>
  C4, as stated, fails for the total \<open>-1\<close>: the division by \<open>-1\<close> is an ordinary division,
  so \<^verbatim>\<open>increment\<close> stores the percentage \<open>-100\<close> and counts no error.
\<close>

theorem increment_sentinel_total_no_error:
  "num_jobs sentinel_bar = - 1 \<and>
   errors (bar_of (increment_int 1 (sentinel_bar, sample_world))) \<noteq> errors sentinel_bar + 1 \<and>
   progress (bar_of (increment_int 1 (sentinel_bar, sample_world))) = - 100"
  by code_simp

text \<open>
  C5 at the input where the integer-only variant breaks it. The bar has ten jobs, nine of
  them done, and was painted at time 1000; \<^verbatim>\<open>increment\<close> reads the clock at 1000, inside the
  interval of a tenth of a second. The call makes \<^verbatim>\<open>_value\<close> reach \<^verbatim>\<open>num_jobs\<close> and writes
  nothing: the branch that paints the full bar compares the percentage 100, not \<^verbatim>\<open>_value\<close>,
  with \<^verbatim>\<open>num_jobs\<close>.
\<close>

theorem increment_int_reaches_total_unpainted:
  "value' (bar_of (increment_int 1 (sample_bar, sample_world))) = num_jobs sample_bar \<and>
   progress (bar_of (increment_int 1 (sample_bar, sample_world))) = 100 \<and>
   sys_stdout (world_of (increment_int 1 (sample_bar, sample_world))) = []"
  by code_simp

text \<open>
  C6, as the code has it. After \<^verbatim>\<open>increment\<close>, when the stored count lies between 0 and a
  positive total, the stored percentage is the integer part of the product computed in
  doubles: the count divided by the total, rounded, times 100, rounded again. It lies
  between 0 and 100, and it is the exact floor of \<open>count / total * 100\<close> or one less. This
  holds for every call of the iterable-aware variant. For the integer-only variant, whose
  total is a C \<^verbatim>\<open>int\<close>, it holds for the calls that render and for those whose computed
  percentage \<open>p\<close> differs from the total.
\<close>

theorem progress_is_floor_of_double_product:
  fixes s :: "'z ProgressBar_scheme" and a :: "32 word" and b :: "16 word" and w :: world
  defines "s1 \<equiv> bar_of (increment_seq a (s, w))"
  defines "s2 \<equiv> bar_of (increment_int b (s, w))"
  defines "k \<equiv> (if start_time s = 0 then Suc (ticks w) else ticks w)"
  defines "p \<equiv> int_of_double
                 (fmul (fdiv (of_int (wrap32 (value' s + uint b))) (of_int (num_jobs s))) 100)"
  shows "(0 < num_jobs s1 \<and> 0 \<le> value' s1 \<and> value' s1 \<le> num_jobs s1 \<longrightarrow>
           progress s1 = \<lfloor>fmul (fdiv (of_int (value' s1)) (fl (of_int (num_jobs s1)))) 100\<rfloor> \<and>
           0 \<le> progress s1 \<and> progress s1 \<le> 100 \<and>
           \<lfloor>(of_int (value' s1) :: rat) / of_int (num_jobs s1) * 100\<rfloor> - 1 \<le> progress s1 \<and>
           progress s1 \<le> \<lfloor>(of_int (value' s1) :: rat) / of_int (num_jobs s1) * 100\<rfloor>) \<and>
         (0 < num_jobs s2 \<and> num_jobs s2 < 2 ^ 31 \<and> 0 \<le> value' s2 \<and> value' s2 \<le> num_jobs s2 \<and>
          (print_interval s < fsub (clock w k) (last_print_time s) \<or> p \<noteq> num_jobs s) \<longrightarrow>
           progress s2 = \<lfloor>fmul (fdiv (of_int (value' s2)) (of_int (num_jobs s2))) 100\<rfloor> \<and>
           0 \<le> progress s2 \<and> progress s2 \<le> 100 \<and>
           \<lfloor>(of_int (value' s2) :: rat) / of_int (num_jobs s2) * 100\<rfloor> - 1 \<le> progress s2 \<and>
           progress s2 \<le> \<lfloor>(of_int (value' s2) :: rat) / of_int (num_jobs s2) * 100\<rfloor>)"
proof (intro conjI impI)
  assume h: "0 < num_jobs s1 \<and> 0 \<le> value' s1 \<and> value' s1 \<le> num_jobs s1"
  have n: "num_jobs s1 = num_jobs s" unfolding s1_def by (rule num_jobs_increment_seq)
  have v: "value' s1 = wrap32 (value' s + uint a)"
    unfolding s1_def by (rule value_increment_seq)
  have v31: "value' s1 < 2 ^ 31"
    using int32_wrap32 [of "value' s + uint a"] by (simp add: v int32_def)
  let ?d = "fmul (fdiv (of_int (value' s1)) (fl (of_int (num_jobs s1)))) 100"
  have pd: "progress s1 = int_of_double ?d"
    unfolding s1_def using h progress_increment_seq [of s a w]
    by (simp add: n [unfolded s1_def] v [unfolded s1_def] s1_def)
  have r: "0 \<le> ?d" "?d \<le> 100"
    using percent_range [of "num_jobs s1" "value' s1"] h v31 by simp_all
  have f: "0 \<le> \<lfloor>?d\<rfloor>" "\<lfloor>?d\<rfloor> \<le> 100" using r by (simp_all add: floor_le_iff)
  have "int_of_double ?d = \<lfloor>?d\<rfloor>"
    using r(1) f by (simp add: int_of_double_def trunc_int_def int32_def Let_def)
  with pd have pf: "progress s1 = \<lfloor>?d\<rfloor>" by simp
  have e: "\<lfloor>(of_int (value' s1) :: rat) / of_int (num_jobs s1) * 100\<rfloor> - 1 \<le> \<lfloor>?d\<rfloor>"
    "\<lfloor>?d\<rfloor> \<le> \<lfloor>(of_int (value' s1) :: rat) / of_int (num_jobs s1) * 100\<rfloor>"
    using percent_floor_near_exact [of "num_jobs s1" "value' s1"] h v31 by simp_all
  show "progress s1 = \<lfloor>?d\<rfloor>" by (rule pf)
  show "0 \<le> progress s1" "progress s1 \<le> 100" using pf f by simp_all
  show "\<lfloor>(of_int (value' s1) :: rat) / of_int (num_jobs s1) * 100\<rfloor> - 1 \<le> progress s1"
    "progress s1 \<le> \<lfloor>(of_int (value' s1) :: rat) / of_int (num_jobs s1) * 100\<rfloor>"
    using pf e by simp_all
next
  assume h: "0 < num_jobs s2 \<and> num_jobs s2 < 2 ^ 31 \<and> 0 \<le> value' s2 \<and> value' s2 \<le> num_jobs s2 \<and>
    (print_interval s < fsub (clock w k) (last_print_time s) \<or> p \<noteq> num_jobs s)"
  have n0: "num_jobs s2 = num_jobs s"
    unfolding s2_def
    by (simp add: increment_int_def increment_try_int_def complete_int_def update_int_def
          bar_of_def time_time_def Let_def split: prod.splits)
  from h n0 have nz: "num_jobs s \<noteq> 0" by simp
  from h have c: "print_interval s < fsub (clock w k) (last_print_time s) \<or> p \<noteq> num_jobs s"
    by simp
  note pl = increment_int_plain [OF nz c [unfolded k_def p_def], folded s2_def]
  have v: "value' s2 = wrap32 (value' s + uint b)" using pl by simp
  have v31: "value' s2 < 2 ^ 31"
    using int32_wrap32 [of "value' s + uint b"] by (simp add: v int32_def)
  let ?d = "fmul (fdiv (of_int (value' s2)) (of_int (num_jobs s2))) 100"
  have ex: "fl (of_int (num_jobs s2)) = of_int (num_jobs s2)"
    using h by (intro fl_of_int) simp
  have pd: "progress s2 = int_of_double ?d" using pl by (simp add: v n0)
  have r: "0 \<le> ?d" "?d \<le> 100"
    using percent_range [of "num_jobs s2" "value' s2"] h v31 by (simp_all add: ex)
  have f: "0 \<le> \<lfloor>?d\<rfloor>" "\<lfloor>?d\<rfloor> \<le> 100" using r by (simp_all add: floor_le_iff)
  have "int_of_double ?d = \<lfloor>?d\<rfloor>"
    using r(1) f by (simp add: int_of_double_def trunc_int_def int32_def Let_def)
  with pd have pf: "progress s2 = \<lfloor>?d\<rfloor>" by simp
  have e: "\<lfloor>(of_int (value' s2) :: rat) / of_int (num_jobs s2) * 100\<rfloor> - 1 \<le> \<lfloor>?d\<rfloor>"
    "\<lfloor>?d\<rfloor> \<le> \<lfloor>(of_int (value' s2) :: rat) / of_int (num_jobs s2) * 100\<rfloor>"
    using percent_floor_near_exact [of "num_jobs s2" "value' s2"] h v31 by (simp_all add: ex)
  show "progress s2 = \<lfloor>?d\<rfloor>" by (rule pf)
  show "0 \<le> progress s2" "progress s2 \<le> 100" using pf f by simp_all
  show "\<lfloor>(of_int (value' s2) :: rat) / of_int (num_jobs s2) * 100\<rfloor> - 1 \<le> progress s2"
    "progress s2 \<le> \<lfloor>(of_int (value' s2) :: rat) / of_int (num_jobs s2) * 100\<rfloor>"
    using pf e by simp_all
qed

theorem progress_is_floor_of_double_product_witness:
  "0 < num_jobs (bar_of (increment_seq 1 (bar28, sample_world))) \<and>
   0 \<le> value' (bar_of (increment_seq 1 (bar28, sample_world))) \<and>
   value' (bar_of (increment_seq 1 (bar28, sample_world)))
     \<le> num_jobs (bar_of (increment_seq 1 (bar28, sample_world))) \<and>
   progress (bar_of (increment_seq 1 (bar28, sample_world))) = 28 \<and>
   0 < num_jobs (bar_of (increment_int 1 (bar28, sample_world))) \<and>
   num_jobs (bar_of (increment_int 1 (bar28, sample_world))) < 2 ^ 31 \<and>
   0 \<le> value' (bar_of (increment_int 1 (bar28, sample_world))) \<and>
   value' (bar_of (increment_int 1 (bar28, sample_world)))
     \<le> num_jobs (bar_of (increment_int 1 (bar28, sample_world))) \<and>
   int_of_double (fmul (fdiv (of_int (wrap32 (value' bar28 + uint (1 :: 16 word))))
     (of_int (num_jobs bar28))) 100) \<noteq> num_jobs bar28 \<and>
   progress (bar_of (increment_int 1 (bar28, sample_world))) = 28"
proof -
  have e: "value' (bar_of (increment_seq 1 (bar28, sample_world))) = 29"
    "num_jobs (bar_of (increment_seq 1 (bar28, sample_world))) = 100"
    "value' (bar_of (increment_int 1 (bar28, sample_world))) = 29"
    "num_jobs (bar_of (increment_int 1 (bar28, sample_world))) = 100"
    "\<lfloor>fmul (fdiv 29 (fl 100)) 100\<rfloor> = 28" "\<lfloor>fmul (fdiv 29 100) 100\<rfloor> = 28"
    "int_of_double (fmul (fdiv (of_int (wrap32 (value' bar28 + uint (1 :: 16 word))))
       (of_int (num_jobs bar28))) 100) \<noteq> num_jobs bar28"
    by code_simp+
  note c = progress_is_floor_of_double_product
             [where s = bar28 and a = 1 and b = 1 and w = sample_world]
  from c e show ?thesis by simp
qed

text \<open>
  C6, as stated, fails: with 29 of 100 jobs done the stored percentage is 28, while the
  floor of 29 / 100 * 100 is 29. The double nearest to 29 / 100 lies below it, and its
  product with 100 rounds to the double just below 29.
\<close>

theorem progress_29_of_100_is_28:
  "value' (bar_of (increment_seq 1 (bar28, sample_world))) = 29 \<and>
   num_jobs (bar_of (increment_seq 1 (bar28, sample_world))) = 100 \<and>
   progress (bar_of (increment_seq 1 (bar28, sample_world))) = 28 \<and>
   \<lfloor>(29 :: rat) / 100 * 100\<rfloor> = 29"
  by code_simp

text \<open>
  C7 at the input where the iterable-aware variant breaks it. The bar has one job and a
  count of one, and \<^verbatim>\<open>increment(1)\<close> renders with \<open>elapsed = 1 / 64\<close>. The count becomes two,
  and \<^verbatim>\<open>self.num_jobs - self._value\<close> is an \<^verbatim>\<open>unsigned long\<close> subtraction: the remaining time
  written is \<open>(elapsed / 2) * 2 ^ 64\<close>, where the formula of the claim gives
  \<open>(elapsed / 2) * (1 - 2)\<close>. The throughput \<open>2 / elapsed\<close> is as claimed.
\<close>

theorem increment_eta_wraps_on_overshoot:
  "sys_stdout (world_of (increment_seq 1 (overshoot_bar, sample_world)))
     = [ProgressLine 128 200 144115188075855872 (1 / 64)] \<and>
   fmul (fdiv (1 / 64) (of_int 2)) (of_int (1 - 2)) = - (1 / 128)"
  by code_simp

text \<open>
  C8. Constructing the bar from a list of \<open>n\<close> items (fewer than \<open>2 ^ 31\<close>, so that the \<^verbatim>\<open>int\<close>
  cursor does not wrap) sets \<^verbatim>\<open>num_jobs\<close> to \<open>n\<close> and keeps the list. A pull with the cursor
  inside the list returns the item at the cursor, and its state is that of one
  \<^verbatim>\<open>increment(1)\<close> applied to the bar with the cursor advanced by one. Pulling until the end
  yields the items in order; the count is then \<open>n\<close>, one for each pull, and the next pull
  raises \<^verbatim>\<open>StopIteration\<close>.
\<close>

theorem iteration_increments_once_per_item:
  fixes xs :: "'a list"
  assumes "length xs < 2 ^ 31"
  shows "\<exists>s0 w0. init_seq (JSeq xs) t p i w = Inr (s0, w0) \<and>
           num_jobs s0 = int (length xs) \<and> sequence s0 = Some xs \<and> index' s0 = 0 \<and>
           value' s0 = 0 \<and>
           (\<forall>s w. sequence s = Some xs \<and> 0 \<le> index' s \<and> index' s < int (length xs) \<longrightarrow>
              next_seq (s, w) =
                (Inr (xs ! nat (index' s)),
                 bar_of (increment_seq 1 (s\<lparr>index' := index' s + 1\<rparr>, w)),
                 world_of (increment_seq 1 (s\<lparr>index' := index' s + 1\<rparr>, w)))) \<and>
           (\<exists>s1 w1. drain (Suc (length xs)) (s0, w0) = Some (xs, s1, w1) \<and>
              value' s1 = int (length xs) \<and> index' s1 = int (length xs) \<and>
              next_seq (s1, w1) = (Inl StopIteration, s1, w1))"
proof -
  obtain s0 w0 where i0: "init_seq (JSeq xs) t p i w = Inr (s0, w0)"
    and f: "num_jobs s0 = int (length xs)" "sequence s0 = Some xs" "index' s0 = 0"
      "value' s0 = 0"
    using assms by (simp add: init_seq_def time_time_def Let_def split: prod.splits)
  have pull: "next_seq (s, w) =
      (Inr (xs ! nat (index' s)),
       bar_of (increment_seq 1 (s\<lparr>index' := index' s + 1\<rparr>, w)),
       world_of (increment_seq 1 (s\<lparr>index' := index' s + 1\<rparr>, w)))"
    if "sequence s = Some xs \<and> 0 \<le> index' s \<and> index' s < int (length xs)"
    for s :: "'a ProgressBarSeq" and w
  proof -
    have "wrap32 (index' s + 1) = index' s + 1"
      using that assms by (intro wrap32_id) (simp add: int32_def)
    then show ?thesis using next_seq_pull [of s xs w] that by simp
  qed
  obtain s1 w1 where d: "drain (Suc (length xs)) (s0, w0) = Some (drop 0 xs, s1, w1)"
    "value' s1 = value' s0 + int (length xs - 0)" "index' s1 = int (length xs)"
    "sequence s1 = Some xs"
    using drain_rest [of s0 xs 0 "Suc (length xs)" w0] f assms by auto
  have stop: "next_seq (s1, w1) = (Inl StopIteration, s1, w1)"
    using next_seq_stop [of s1 xs w1] d(3,4) by simp
  have inner: "\<exists>s1 w1. drain (Suc (length xs)) (s0, w0) = Some (xs, s1, w1) \<and>
      value' s1 = int (length xs) \<and> index' s1 = int (length xs) \<and>
      next_seq (s1, w1) = (Inl StopIteration, s1, w1)"
    using d(1,2,3) stop f(4) by simp
  have pulls: "\<forall>s w. sequence s = Some xs \<and> 0 \<le> index' s \<and> index' s < int (length xs) \<longrightarrow>
      next_seq (s, w) =
        (Inr (xs ! nat (index' s)),
         bar_of (increment_seq 1 (s\<lparr>index' := index' s + 1\<rparr>, w)),
         world_of (increment_seq 1 (s\<lparr>index' := index' s + 1\<rparr>, w)))"
    using pull by blast
  from i0 f pulls inner show ?thesis by blast
qed

theorem iteration_increments_once_per_item_witness:
  "length ''abcde'' < 2 ^ 31 \<and>
   (\<exists>s0 w0. init_seq (JSeq ''abcde'') ''copy'' True (fl (1 / 10)) sample_world = Inr (s0, w0) \<and>
      num_jobs s0 = 5 \<and> fst (next_seq (s0, w0)) = Inr (CHR ''a'') \<and>
      (\<exists>s1 w1. drain 6 (s0, w0) = Some (''abcde'', s1, w1) \<and> value' s1 = 5 \<and>
         next_seq (s1, w1) = (Inl StopIteration, s1, w1)))"
proof -
  have h: "length ''abcde'' < 2 ^ 31" by simp
  note c = iteration_increments_once_per_item
             [OF h, of "''copy''" True "fl (1 / 10)" sample_world]
  from c obtain s0 w0 where
    a: "init_seq (JSeq ''abcde'') ''copy'' True (fl (1 / 10)) sample_world = Inr (s0, w0)"
      "num_jobs s0 = int (length ''abcde'')" "sequence s0 = Some ''abcde''" "index' s0 = 0" and
    pull: "\<forall>s w. sequence s = Some ''abcde'' \<and> 0 \<le> index' s \<and> index' s < int (length ''abcde'') \<longrightarrow>
              next_seq (s, w) =
                (Inr (''abcde'' ! nat (index' s)),
                 bar_of (increment_seq 1 (s\<lparr>index' := index' s + 1\<rparr>, w)),
                 world_of (increment_seq 1 (s\<lparr>index' := index' s + 1\<rparr>, w)))" and
    b: "\<exists>s1 w1. drain (Suc (length ''abcde'')) (s0, w0) = Some (''abcde'', s1, w1) \<and>
          value' s1 = int (length ''abcde'') \<and> index' s1 = int (length ''abcde'') \<and>
          next_seq (s1, w1) = (Inl StopIteration, s1, w1)"
    by blast
  from b obtain s1 w1 where
    d: "drain (Suc (length ''abcde'')) (s0, w0) = Some (''abcde'', s1, w1)"
      "value' s1 = int (length ''abcde'')"
      "next_seq (s1, w1) = (Inl StopIteration, s1, w1)"
    by blast
  have "sequence s0 = Some ''abcde'' \<and> 0 \<le> index' s0 \<and> index' s0 < int (length ''abcde'')"
    using a(3,4) by simp
  with pull have "next_seq (s0, w0) =
      (Inr (''abcde'' ! nat (index' s0)),
       bar_of (increment_seq 1 (s0\<lparr>index' := index' s0 + 1\<rparr>, w0)),
       world_of (increment_seq 1 (s0\<lparr>index' := index' s0 + 1\<rparr>, w0)))"
    by blast
  then have first: "fst (next_seq (s0, w0)) = Inr (CHR ''a'')" by (simp add: a(4))
  have l: "Suc (length ''abcde'') = 6" "int (length ''abcde'') = 5" by simp_all
  from a(1,2) d first
  have "init_seq (JSeq ''abcde'') ''copy'' True (fl (1 / 10)) sample_world = Inr (s0, w0) \<and>
      num_jobs s0 = 5 \<and> fst (next_seq (s0, w0)) = Inr (CHR ''a'') \<and>
      (\<exists>s1 w1. drain 6 (s0, w0) = Some (''abcde'', s1, w1) \<and> value' s1 = 5 \<and>
         next_seq (s1, w1) = (Inl StopIteration, s1, w1))"
    unfolding l by blast
  with h show ?thesis by blast
qed

text \<open>
  C9, as the code has it. A construction that succeeds sets \<^verbatim>\<open>_value\<close> to 0. \<^verbatim>\<open>increment\<close>, called
  with an amount of its C parameter type on a count that is not negative, keeps it so when
  the sum of the count and the amount fits the 32-bit \<^verbatim>\<open>int\<close>; for the integer-only variant
  the total must not be negative either. \<^verbatim>\<open>complete\<close> and \<^verbatim>\<open>__exit__\<close> leave the count unchanged
  in the iterable-aware variant and set it to the total in the integer-only variant;
  \<^verbatim>\<open>__enter__\<close> leaves it unchanged. The setter of \<^verbatim>\<open>value\<close> raises for a value that is not a C
  \<^verbatim>\<open>int\<close> and otherwise stores the value as it is.
\<close>

theorem count_stays_nonnegative:
  fixes s :: "'z ProgressBar_scheme" and a :: "32 word" and b :: "16 word" and w :: world
  shows "(case init_seq jobs t p i w of Inl e \<Rightarrow> True | Inr (s0, w0) \<Rightarrow> value' s0 = 0) \<and>
         (case init_int n p i w of Inl e \<Rightarrow> True | Inr (s0, w0) \<Rightarrow> value' s0 = 0) \<and>
         (0 \<le> value' s \<and> value' s + uint a < 2 ^ 31 \<longrightarrow>
            0 \<le> value' (bar_of (increment_seq a (s, w)))) \<and>
         (0 \<le> value' s \<and> value' s + uint b < 2 ^ 31 \<and> 0 \<le> num_jobs s \<longrightarrow>
            0 \<le> value' (bar_of (increment_int b (s, w)))) \<and>
         value' (fst (complete_seq (s, w))) = value' s \<and>
         value' (fst (complete_int (s, w))) = num_jobs s \<and>
         value' (fst (enter (s, w))) = value' s \<and>
         value' (bar_of (exit_seq exc (s, w))) = value' s \<and>
         value' (bar_of (exit_int exc (s, w))) = num_jobs s \<and>
         (case set_value v s of Inl e \<Rightarrow> \<not> int32 v | Inr s1 \<Rightarrow> int32 v \<and> value' s1 = v)"
proof -
  have i1: "case init_seq jobs t p i w of Inl e \<Rightarrow> True | Inr (s0, w0) \<Rightarrow> value' s0 = 0"
    by (simp add: init_seq_def time_time_def Let_def split: jobs.splits sum.splits prod.splits)
  have i2: "case init_int n p i w of Inl e \<Rightarrow> True | Inr (s0, w0) \<Rightarrow> value' s0 = 0"
    by (simp add: init_int_def Let_def split: sum.splits prod.splits)
  have ua: "0 \<le> uint a" and ub: "0 \<le> uint b" by simp_all
  have a: "0 \<le> value' (bar_of (increment_seq a (s, w)))"
    if "0 \<le> value' s \<and> value' s + uint a < 2 ^ 31"
  proof -
    have "int32 (value' s + uint a)" unfolding int32_def using that ua by linarith
    then have "wrap32 (value' s + uint a) = value' s + uint a" by (rule wrap32_id)
    then show ?thesis using that ua by (simp add: value_increment_seq)
  qed
  have b: "0 \<le> value' (bar_of (increment_int b (s, w)))"
    if "0 \<le> value' s \<and> value' s + uint b < 2 ^ 31 \<and> 0 \<le> num_jobs s"
  proof -
    have "int32 (value' s + uint b)" unfolding int32_def using that ub by linarith
    then have "wrap32 (value' s + uint b) = value' s + uint b" by (rule wrap32_id)
    then show ?thesis using value_increment_int [of b s w] that ub by auto
  qed
  have c: "value' (fst (complete_seq (s, w))) = value' s"
    "value' (fst (complete_int (s, w))) = num_jobs s"
    "value' (fst (enter (s, w))) = value' s"
    "value' (bar_of (exit_seq exc (s, w))) = value' s"
    "value' (bar_of (exit_int exc (s, w))) = num_jobs s"
    by (simp_all add: complete_seq_def complete_int_def update_int_def enter_def exit_seq_def
          exit_int_def bar_of_def time_time_def Let_def)
  have d: "case set_value v s of Inl e \<Rightarrow> \<not> int32 v | Inr s1 \<Rightarrow> int32 v \<and> value' s1 = v"
    by (simp add: set_value_def)
  show ?thesis using i1 i2 a b c d by blast
qed

theorem count_stays_nonnegative_witness:
  "0 \<le> value' sample_bar \<and> value' sample_bar + uint (1 :: 32 word) < 2 ^ 31 \<and>
   value' sample_bar + uint (1 :: 16 word) < 2 ^ 31 \<and> 0 \<le> num_jobs sample_bar \<and>
   0 \<le> value' (bar_of (increment_seq 1 (sample_bar, sample_world))) \<and>
   0 \<le> value' (bar_of (increment_int 1 (sample_bar, sample_world))) \<and>
   value' (fst (complete_int (sample_bar, sample_world))) = num_jobs sample_bar"
proof -
  have h: "0 \<le> value' sample_bar" "0 \<le> num_jobs sample_bar"
    "value' sample_bar + uint (1 :: 32 word) < 2 ^ 31"
    "value' sample_bar + uint (1 :: 16 word) < 2 ^ 31"
    by (simp_all add: sample_bar_def)
  note c = count_stays_nonnegative
             [where s = sample_bar and a = 1 and b = 1 and w = sample_world and v = 4
                 and jobs = "JInt 10" and t = "[]" and p = True and i = 0 and n = 10
                 and exc = None]
  from c h show ?thesis by blast
qed

text \<open>
  C9, as stated, fails: the setter stores \<open>-1\<close>, and incrementing the largest \<^verbatim>\<open>int\<close> by one
  wraps to a negative count.
\<close>

theorem count_can_become_negative:
  "0 \<le> value' sample_bar \<and>
   set_value (- 1) sample_bar = Inr (sample_bar\<lparr>value' := - 1\<rparr>) \<and>
   value' (sample_bar\<lparr>value' := - 1\<rparr>) < 0 \<and>
   0 \<le> value' (sample_bar\<lparr>value' := 2147483647\<rparr>) \<and>
   value' (bar_of (increment_seq 1 (sample_bar\<lparr>value' := 2147483647\<rparr>, sample_world))) < 0"
  by (simp add: set_value_def int32_def sample_bar_def value_increment_seq wrap32_def)

text \<open>
  C10. When \<^verbatim>\<open>num_jobs\<close> is zero, \<^verbatim>\<open>increment\<close> of either variant still adds the amount to
  \<^verbatim>\<open>_value\<close> (the sum is assumed to fit the \<^verbatim>\<open>int\<close> field), because the addition runs before
  the division that raises; \<^verbatim>\<open>progress\<close>, \<^verbatim>\<open>throughput\<close> and \<^verbatim>\<open>execution_time\<close> keep their
  values and \<^verbatim>\<open>errors\<close> is incremented.
\<close>

theorem increment_zero_total_still_adds:
  fixes s :: "'z ProgressBar_scheme" and a :: "32 word" and b :: "16 word" and w :: world
  assumes "num_jobs s = 0" and "int32 (value' s + uint a)" and "int32 (value' s + uint b)"
  defines "r \<equiv> increment_seq a (s, w)" and "r2 \<equiv> increment_int b (s, w)"
  shows "value' (bar_of r) = value' s + uint a \<and> progress (bar_of r) = progress s \<and>
         throughput (bar_of r) = throughput s \<and>
         execution_time (bar_of r) = execution_time s \<and>
         errors (bar_of r) = wrap32 (errors s + 1) \<and>
         value' (bar_of r2) = value' s + uint b \<and> progress (bar_of r2) = progress s \<and>
         throughput (bar_of r2) = throughput s \<and>
         execution_time (bar_of r2) = execution_time s \<and>
         errors (bar_of r2) = wrap32 (errors s + 1)"
  unfolding r_def r2_def
  using assms(1,2,3)
  by (simp add: increment_seq_zero_total increment_int_zero_total bar_of_def wrap32_id)

theorem increment_zero_total_still_adds_witness:
  "num_jobs zero_bar = 0 \<and> int32 (value' zero_bar + uint (3 :: 32 word)) \<and>
   int32 (value' zero_bar + uint (3 :: 16 word)) \<and>
   value' (bar_of (increment_seq 3 (zero_bar, sample_world))) = 3 \<and>
   progress (bar_of (increment_seq 3 (zero_bar, sample_world))) = 0 \<and>
   errors (bar_of (increment_seq 3 (zero_bar, sample_world))) = 1 \<and>
   value' (bar_of (increment_int 3 (zero_bar, sample_world))) = 3"
  using increment_zero_total_still_adds
          [where s = zero_bar and a = 3 and b = 3 and w = sample_world]
  by (simp add: zero_bar_def sample_bar_def int32_def wrap32_def)

end
